theory Spec2Isabelle
  imports Complex_Main "HOL-Library.Word" "HOL-Library.Sublist"
begin

unbundle bit_operations_syntax

section \<open>Platform values\<close>

text \<open>
  A \<^verbatim>\<open>Float32Array\<close> element that is finite is a rational number, and every product
  formed by the codec (a 24-bit significand times \<open>32768\<close> or \<open>32767\<close>) is exact in the
  double arithmetic of the source. Finite samples are therefore modelled as \<^typ>\<open>real\<close>
  and the arithmetic of the model is the arithmetic of the program. An \<^verbatim>\<open>ArrayBuffer\<close> is
  a list of bytes. Typed arrays (\<^verbatim>\<open>Int16Array\<close>, \<^verbatim>\<open>Uint8Array\<close>) use the byte order of the
  host, which is taken to be little-endian; \<^verbatim>\<open>DataView\<close> accesses name their byte order.
\<close>

type_synonym byte = "8 word"
type_synonym int16 = "16 word"
type_synonym uint32 = "32 word"

datatype js_error = RangeError | NotSupportedError

text \<open>Sequencing of computations that may throw: the first exception ends the run.\<close>

definition and_then :: "'e + 'a \<Rightarrow> ('a \<Rightarrow> 'e + 'b) \<Rightarrow> 'e + 'b" where
  "and_then r f = (case r of Inl e \<Rightarrow> Inl e | Inr v \<Rightarrow> f v)"

text \<open>\<^verbatim>\<open>ToInt16\<close> of a finite number: drop the fraction, then wrap modulo \<open>2^16\<close>.\<close>

definition js_truncate :: "real \<Rightarrow> int" where
  "js_truncate x = (if x < 0 then \<lceil>x\<rceil> else \<lfloor>x\<rfloor>)"

definition ToInt16 :: "real \<Rightarrow> int16" where
  "ToInt16 x = word_of_int (js_truncate x)"

definition ToUint32 :: "nat \<Rightarrow> uint32" where
  "ToUint32 n = of_nat n"

definition le16 :: "int16 \<Rightarrow> byte list" where
  "le16 w = [ucast w, ucast (drop_bit 8 w)]"

definition le32 :: "uint32 \<Rightarrow> byte list" where
  "le32 w = [ucast w, ucast (drop_bit 8 w), ucast (drop_bit 16 w), ucast (drop_bit 24 w)]"

text \<open>\<^verbatim>\<open>new Int16Array(buffer)\<close>: a \<^verbatim>\<open>RangeError\<close> when the byte length is odd.\<close>

fun int16_pairs :: "byte list \<Rightarrow> int16 list" where
  "int16_pairs (lo # hi # rest) = (ucast lo OR push_bit 8 (ucast hi)) # int16_pairs rest"
| "int16_pairs _ = []"

definition Int16Array_of_buffer :: "byte list \<Rightarrow> js_error + int16 list" where
  "Int16Array_of_buffer buffer =
     (if even (length buffer) then Inr (int16_pairs buffer) else Inl RangeError)"

text \<open>\<^verbatim>\<open>new Uint8Array(int16.buffer)\<close>: the bytes behind an \<^verbatim>\<open>Int16Array\<close>.\<close>

definition Uint8Array_of_int16 :: "int16 list \<Rightarrow> byte list" where
  "Uint8Array_of_int16 ws = concat (map le16 ws)"

subsection \<open>DataView\<close>

text \<open>Every \<^verbatim>\<open>DataView\<close> setter throws a \<^verbatim>\<open>RangeError\<close> when the access leaves the buffer.\<close>

definition write_at :: "byte list \<Rightarrow> nat \<Rightarrow> byte list \<Rightarrow> js_error + byte list" where
  "write_at view off bs =
     (if off + length bs \<le> length view
      then Inr (take off view @ bs @ drop (off + length bs) view)
      else Inl RangeError)"

definition setUint8 :: "byte list \<Rightarrow> nat \<Rightarrow> byte \<Rightarrow> js_error + byte list" where
  "setUint8 view off v = write_at view off [v]"

definition setUint16 :: "byte list \<Rightarrow> nat \<Rightarrow> nat \<Rightarrow> js_error + byte list" where
  "setUint16 view off n = write_at view off (le16 (of_nat n))"

definition setUint32 :: "byte list \<Rightarrow> nat \<Rightarrow> nat \<Rightarrow> js_error + byte list" where
  "setUint32 view off n = write_at view off (le32 (ToUint32 n))"

definition setInt16 :: "byte list \<Rightarrow> nat \<Rightarrow> real \<Rightarrow> js_error + byte list" where
  "setInt16 view off x = write_at view off (le16 (ToInt16 x))"

definition read_at :: "byte list \<Rightarrow> nat \<Rightarrow> nat \<Rightarrow> byte list option" where
  "read_at view off n =
     (if off + n \<le> length view then Some (take n (drop off view)) else None)"

definition uint_le :: "byte list \<Rightarrow> nat" where
  "uint_le bs = foldr (\<lambda>b acc. unat b + 256 * acc) bs 0"

definition getUint16 :: "byte list \<Rightarrow> nat \<Rightarrow> nat option" where
  "getUint16 view off = map_option uint_le (read_at view off 2)"

definition getUint32 :: "byte list \<Rightarrow> nat \<Rightarrow> nat option" where
  "getUint32 view off = map_option uint_le (read_at view off 4)"

definition getInt16 :: "byte list \<Rightarrow> nat \<Rightarrow> int option" where
  "getInt16 view off =
     map_option (\<lambda>bs. sint (word_of_nat (uint_le bs) :: int16)) (read_at view off 2)"

definition char_codes :: "string \<Rightarrow> byte list" where
  "char_codes s = map (\<lambda>c. of_char c) s"

section \<open>PCM codec (src/utils/audio.ts)\<close>

definition clamp_sample :: "real \<Rightarrow> real" where
  "clamp_sample x = max (- 1) (min 1 x)"

definition scale_sample :: "real \<Rightarrow> real" where
  "scale_sample x = (let s = clamp_sample x in if s < 0 then s * 32768 else s * 32767)"

fun writeString :: "byte list \<Rightarrow> nat \<Rightarrow> string \<Rightarrow> js_error + byte list" where
  "writeString view offset [] = Inr view"
| "writeString view offset (c # cs) =
     and_then (setUint8 view offset (of_char c)) (\<lambda>v. writeString v (offset + 1) cs)"

fun floatTo16BitPCM :: "byte list \<Rightarrow> nat \<Rightarrow> real list \<Rightarrow> js_error + byte list" where
  "floatTo16BitPCM output offset [] = Inr output"
| "floatTo16BitPCM output offset (x # xs) =
     and_then (setInt16 output offset (scale_sample x))
       (\<lambda>v. floatTo16BitPCM v (offset + 2) xs)"

record blob =
  blob_bytes :: "byte list"
  blob_type :: string

definition encodeWav :: "real list \<Rightarrow> nat \<Rightarrow> js_error + blob" where
  "encodeWav samples sampleRate =
     (let buffer = replicate (44 + length samples * 2) (0 :: byte);
          numChannels = 1;
          bitsPerSample = 16 in
      and_then (writeString buffer 0 ''RIFF'') (\<lambda>view.
      and_then (setUint32 view 4 (36 + length samples * 2)) (\<lambda>view.
      and_then (writeString view 8 ''WAVE'') (\<lambda>view.
      and_then (writeString view 12 ''fmt '') (\<lambda>view.
      and_then (setUint32 view 16 16) (\<lambda>view.
      and_then (setUint16 view 20 1) (\<lambda>view.
      and_then (setUint16 view 22 numChannels) (\<lambda>view.
      and_then (setUint32 view 24 sampleRate) (\<lambda>view.
      and_then (setUint32 view 28 (sampleRate * numChannels * (bitsPerSample div 8))) (\<lambda>view.
      and_then (setUint16 view 32 (numChannels * (bitsPerSample div 8))) (\<lambda>view.
      and_then (setUint16 view 34 bitsPerSample) (\<lambda>view.
      and_then (writeString view 36 ''data'') (\<lambda>view.
      and_then (setUint32 view 40 (length samples * 2)) (\<lambda>view.
      and_then (floatTo16BitPCM view 44 samples) (\<lambda>view.
      Inr \<lparr>blob_bytes = view, blob_type = ''audio/wav''\<rparr>)))))))))))))))"

text \<open>
  \<^verbatim>\<open>encode\<close>: one character per byte (\<^verbatim>\<open>String.fromCharCode\<close>), then \<^verbatim>\<open>btoa\<close>, the
  base64 encoding of RFC 4648 with padding. Every character of the intermediate string
  is below 256, so \<^verbatim>\<open>btoa\<close> cannot throw here.
\<close>

definition b64_digit :: "nat \<Rightarrow> char" where
  "b64_digit n =
     ''ABCDEFGHIJKLMNOPQRSTUVWXYZabcdefghijklmnopqrstuvwxyz0123456789+/'' ! (n mod 64)"

fun btoa :: "string \<Rightarrow> string" where
  "btoa [] = []"
| "btoa [a] =
     (let x = of_char a :: nat
      in [b64_digit (x div 4), b64_digit (x mod 4 * 16), CHR ''='', CHR ''=''])"
| "btoa [a, b] =
     (let x = of_char a :: nat; y = of_char b :: nat
      in [b64_digit (x div 4), b64_digit (x mod 4 * 16 + y div 16),
          b64_digit (y mod 16 * 4), CHR ''=''])"
| "btoa (a # b # c # rest) =
     (let x = of_char a :: nat; y = of_char b :: nat; z = of_char c :: nat
      in [b64_digit (x div 4), b64_digit (x mod 4 * 16 + y div 16),
          b64_digit (y mod 16 * 4 + z div 64), b64_digit (z mod 64)] @ btoa rest)"

definition encode :: "byte list \<Rightarrow> string" where
  "encode bytes = btoa (map (\<lambda>b. char_of (unat b)) bytes)"

text \<open>
  \<^verbatim>\<open>createBlob\<close>: the loop fills a zeroed \<^verbatim>\<open>Int16Array\<close> index by index; storing a
  number into an \<^verbatim>\<open>Int16Array\<close> applies \<^verbatim>\<open>ToInt16\<close>.
\<close>

function createBlob_loop :: "real list \<Rightarrow> int16 list \<Rightarrow> nat \<Rightarrow> nat \<Rightarrow> int16 list" where
  "createBlob_loop d int16 i l =
     (if i < l
      then createBlob_loop d (int16[i := ToInt16 (scale_sample (d ! i))]) (i + 1) l
      else int16)"
  by pat_completeness auto
termination
  by (relation "measure (\<lambda>(d, int16, i, l). l - i)") auto

record genai_blob =
  blob_data :: string
  blob_mimeType :: string

definition createBlob_int16 :: "real list \<Rightarrow> int16 list" where
  "createBlob_int16 d =
     (let l = length d; int16 = replicate l 0 in createBlob_loop d int16 0 l)"

definition createBlob :: "real list \<Rightarrow> genai_blob" where
  "createBlob d =
     \<lparr>blob_data = encode (Uint8Array_of_int16 (createBlob_int16 d)),
      blob_mimeType = ''audio/pcm;rate=16000''\<rparr>"

text \<open>
  \<^verbatim>\<open>decodeAudioData\<close>. The audio context enters only through \<^verbatim>\<open>createBuffer\<close>, which
  the Web Audio interface lets fail with \<^verbatim>\<open>NotSupportedError\<close> when an argument is zero
  or outside the nominal range of the host; the host's limits are fields of the
  context. The frame count is \<^verbatim>\<open>dataInt16.length / numChannels\<close>; as a buffer length it
  is truncated, and writes past the end of a channel are dropped, so the channel holds
  one value per whole frame.
\<close>

record audio_host =
  maxChannels :: nat
  minRate :: nat
  maxRate :: nat

definition createBuffer :: "audio_host \<Rightarrow> nat \<Rightarrow> nat \<Rightarrow> nat \<Rightarrow> js_error + real list list" where
  "createBuffer ctx numChannels len rate =
     (if numChannels < 1 \<or> maxChannels ctx < numChannels \<or> len < 1
         \<or> rate < minRate ctx \<or> maxRate ctx < rate
      then Inl NotSupportedError
      else Inr (replicate numChannels (replicate len 0)))"

definition decodeAudioData ::
    "byte list \<Rightarrow> audio_host \<Rightarrow> nat \<Rightarrow> nat \<Rightarrow> js_error + real list list" where
  "decodeAudioData bytes ctx sampleRate numChannels =
     and_then (Int16Array_of_buffer bytes) (\<lambda>dataInt16.
       let frameCount = length dataInt16 div numChannels in
       and_then (createBuffer ctx numChannels frameCount sampleRate) (\<lambda>buffer.
         Inr (map (\<lambda>channel.
                map (\<lambda>i. real_of_int (sint (dataInt16 ! (i * numChannels + channel))) / 32768)
                  [0..<frameCount])
              [0..<numChannels])))"

text \<open>
  The composition the round-trip property speaks of: the payload of the container
  (everything after the 44-byte header) decoded as one channel at the same rate.
\<close>

definition decode_container_payload ::
    "real list \<Rightarrow> nat \<Rightarrow> audio_host \<Rightarrow> js_error + real list list" where
  "decode_container_payload S R ctx =
     and_then (encodeWav S R) (\<lambda>b. decodeAudioData (drop 44 (blob_bytes b)) ctx R 1)"

text \<open>The 44 header bytes and the payload, as the layout of the container names them.\<close>

definition wav_header :: "nat \<Rightarrow> nat \<Rightarrow> byte list" where
  "wav_header n R =
     char_codes ''RIFF'' @ le32 (ToUint32 (36 + n * 2)) @ char_codes ''WAVE'' @
     char_codes ''fmt '' @ le32 (ToUint32 16) @ le16 1 @ le16 1 @
     le32 (ToUint32 R) @ le32 (ToUint32 (R * 2)) @ le16 2 @ le16 16 @
     char_codes ''data'' @ le32 (ToUint32 (n * 2))"

definition pcm16 :: "real list \<Rightarrow> int16 list" where
  "pcm16 S = map (\<lambda>x. ToInt16 (scale_sample x)) S"

definition browser_host :: audio_host where
  "browser_host = \<lparr>maxChannels = 32, minRate = 3000, maxRate = 768000\<rparr>"

section \<open>Strings\<close>

text \<open>
  A string of the source is a sequence of 16-bit code units. The model's \<^typ>\<open>string\<close>
  holds the code units below 256, which covers every literal of the source; the
  functions below are the \<^verbatim>\<open>String.prototype\<close> methods of the same names, restricted to
  that range.
\<close>

definition paragraph_break :: string where
  "paragraph_break = [CHR 0x0A, CHR 0x0A]"

definition is_whitespace :: "char \<Rightarrow> bool" where
  "is_whitespace c = (of_char c \<in> {9, 10, 11, 12, 13, 32, 160 :: nat})"

definition trim :: "string \<Rightarrow> string" where
  "trim s = rev (dropWhile is_whitespace (rev (dropWhile is_whitespace s)))"

definition toLowerCase_unit :: "char \<Rightarrow> char" where
  "toLowerCase_unit c =
     (let n = of_char c :: nat
      in if (65 \<le> n \<and> n \<le> 90) \<or> (192 \<le> n \<and> n \<le> 222 \<and> n \<noteq> 215)
         then char_of (n + 32) else c)"

definition toLowerCase :: "string \<Rightarrow> string" where
  "toLowerCase s = map toLowerCase_unit s"

definition startsWith :: "string \<Rightarrow> string \<Rightarrow> bool" where
  "startsWith s p = prefix p s"

definition endsWith :: "string \<Rightarrow> string \<Rightarrow> bool" where
  "endsWith s p = suffix p s"

fun includes_string :: "string \<Rightarrow> string \<Rightarrow> bool" where
  "includes_string [] sub = (sub = [])"
| "includes_string (c # cs) sub = (prefix sub (c # cs) \<or> includes_string cs sub)"

text \<open>\<^verbatim>\<open>s.split('.').pop()\<close>: what follows the last dot, or all of \<open>s\<close> when it has none.\<close>

definition split_pop :: "string \<Rightarrow> string" where
  "split_pop s = rev (takeWhile (\<lambda>c. c \<noteq> CHR ''.'') (rev s))"

definition substring :: "string \<Rightarrow> nat \<Rightarrow> string" where
  "substring s n = drop n s"

text \<open>\<^verbatim>\<open>s.slice(0, -n)\<close>; \<^verbatim>\<open>-0\<close> is \<^verbatim>\<open>0\<close>, so \<open>n = 0\<close> gives the empty string.\<close>

definition slice_0_minus :: "string \<Rightarrow> nat \<Rightarrow> string" where
  "slice_0_minus s n = (if n = 0 then [] else take (length s - n) s)"

section \<open>Media type of an uploaded file (transcribeFile, lines 229 to 269)\<close>

text \<open>
  \<^verbatim>\<open>mimeMap\<close> is an object literal, so \<^verbatim>\<open>mimeMap[extension]\<close> also finds the members the
  literal inherits from \<^verbatim>\<open>Object.prototype\<close>; those are functions or objects, not strings,
  and every one of them is truthy.
\<close>

datatype js_value = Str string | Obj

datatype thrown = ErrorObject string | OtherValue

definition mimeMap :: "(string \<times> string) list" where
  "mimeMap =
     [(''mp3'', ''audio/mpeg''), (''wav'', ''audio/wav''), (''m4a'', ''audio/mp4''),
      (''mp4'', ''audio/mp4''), (''aac'', ''audio/aac''), (''flac'', ''audio/flac''),
      (''ogg'', ''audio/ogg''), (''opus'', ''audio/ogg''), (''webm'', ''audio/webm''),
      (''3gp'', ''audio/3gpp''), (''amr'', ''audio/amr''), (''oga'', ''audio/ogg''),
      (''mpga'', ''audio/mpeg'')]"

definition Object_prototype :: "string list" where
  "Object_prototype =
     [''constructor'', ''__defineGetter__'', ''__defineSetter__'', ''hasOwnProperty'',
      ''__lookupGetter__'', ''__lookupSetter__'', ''isPrototypeOf'',
      ''propertyIsEnumerable'', ''toString'', ''valueOf'', ''__proto__'',
      ''toLocaleString'']"

definition mimeMap_lookup :: "string \<Rightarrow> js_value option" where
  "mimeMap_lookup key =
     (case map_of mimeMap key of
        Some v \<Rightarrow> Some (Str v)
      | None \<Rightarrow> if key \<in> set Object_prototype then Some Obj else None)"

record js_file =
  file_name :: string
  file_type :: string

definition file_extension :: "js_file \<Rightarrow> string" where
  "file_extension f = trim (toLowerCase (split_pop (file_name f)))"

definition resolveMimeType :: "js_file \<Rightarrow> js_value" where
  "resolveMimeType f =
     (let extension = file_extension f;
          mimeType = Str (file_type f);
          mimeType =
            (case (if extension \<noteq> [] then mimeMap_lookup extension else None) of
               Some v \<Rightarrow> v
             | None \<Rightarrow> if mimeType = Str ''audio/x-m4a'' then Str ''audio/mp4'' else mimeType)
      in if extension = ''m4a'' \<and> mimeType = Str [] then Str ''audio/mp4'' else mimeType)"

definition unsupported_message :: "string \<Rightarrow> string" where
  "unsupported_message m =
     ''Unsupported file type: '' @ (if m = [] then ''unknown'' else m)
       @ ''. Please upload a supported audio file (e.g., MP3, WAV, M4A).''"

text \<open>
  Calling \<^verbatim>\<open>startsWith\<close> on a value that is not a string throws a \<^verbatim>\<open>TypeError\<close>, an
  \<^verbatim>\<open>Error\<close> whose message names the missing method.
\<close>

definition validateMimeType :: "js_value \<Rightarrow> thrown + string" where
  "validateMimeType mimeType =
     (case mimeType of
        Obj \<Rightarrow> Inl (ErrorObject ''mimeType.startsWith is not a function'')
      | Str m \<Rightarrow>
          let isValidAudio = m \<noteq> [] \<and> startsWith m ''audio/'';
              isValidVideoContainer =
                m \<noteq> [] \<and> m \<in> set [''video/mp4'', ''video/webm'', ''video/3gpp'']
          in if \<not> isValidAudio \<and> \<not> isValidVideoContainer
             then Inl (ErrorObject (unsupported_message m))
             else Inr m)"

section \<open>The hook and its component (src/hooks/useAudioTranscription.ts, App)\<close>

text \<open>
  One record holds the React state of the hook, its refs, the two pieces of state the
  App component keeps beside it (\<open>noteContent\<close>, \<open>lastProcessedTranscriptLength\<close>), and
  three logs of what the hook does to its surroundings: the frames passed to
  \<^verbatim>\<open>onAudioData\<close>, the frames sent to the session, and the number of \<^verbatim>\<open>ai.live.connect\<close>
  calls.

  A callback reads the state of the latest render. A state setter called with a value
  is recorded in the field at once. A setter called with an updater function is what
  React documents it to be: the function is queued and React calls it during the next
  render; as an optimisation React may call it at the call already, when the component
  has no update pending. Both are modelled: \<open>pendingTranscript\<close> is the queue of
  \<^verbatim>\<open>setTranscript\<close>, \<open>render\<close> runs it, and the flag \<open>atCall\<close> says which of the two React
  does. An updater is a JavaScript closure, so what it reads from a ref it reads when it
  is called.
\<close>

datatype AppState = IDLE | GETTING_PERMISSION | RECORDING | PAUSED | STOPPING | TRANSCRIBING_FILE

datatype 'a awaited = Resolved 'a | Rejected thrown | Pending

datatype ('e, 'a) step = Done 'a | Raised 'e 'a | Stuck 'a

definition next_step :: "('e, 'a) step \<Rightarrow> ('a \<Rightarrow> ('e, 'a) step) \<Rightarrow> ('e, 'a) step" where
  "next_step r f = (case r of Done s \<Rightarrow> f s | Raised e s \<Rightarrow> Raised e s | Stuck s \<Rightarrow> Stuck s)"

definition step_state :: "('e, 'a) step \<Rightarrow> 'a" where
  "step_state r = (case r of Done s \<Rightarrow> s | Raised e s \<Rightarrow> s | Stuck s \<Rightarrow> s)"

datatype 'a run = Finished 'a | Suspended 'a

definition state_of :: "'a run \<Rightarrow> 'a" where
  "state_of r = (case r of Finished s \<Rightarrow> s | Suspended s \<Rightarrow> s)"

datatype transcript_updater = AppendText string | AppendLiveTranscriptRef

datatype media_stream = MediaStream

datatype audio_node = AudioNode

record audio_context =
  ctx_sampleRate :: nat
  ctx_closed :: bool

record app =
  appState :: AppState
  transcript :: string
  liveTranscript :: string
  error :: "string option"
  recordingTime :: nat
  audioBlob :: "blob option"
  pendingTranscript :: "transcript_updater list"
  sessionPromiseRef :: "nat option"
  audioContextRef :: "audio_context option"
  outputAudioContextRef :: "audio_context option"
  scriptProcessorRef :: "audio_node option"
  mediaStreamSourceRef :: "audio_node option"
  mediaStreamRef :: "media_stream option"
  liveTranscriptRef :: string
  timerRef :: bool
  recordedChunksRef :: "real list list"
  onAudioData_calls :: "real list list"
  sentFrames :: "genai_blob list"
  liveConnects :: nat
  noteContent :: string
  lastProcessedTranscriptLength :: nat

definition initial_app :: app where
  "initial_app =
     \<lparr>appState = IDLE, transcript = [], liveTranscript = [], error = None,
      recordingTime = 0, audioBlob = None, pendingTranscript = [],
      sessionPromiseRef = None, audioContextRef = None, outputAudioContextRef = None,
      scriptProcessorRef = None, mediaStreamSourceRef = None, mediaStreamRef = None,
      liveTranscriptRef = [], timerRef = False, recordedChunksRef = [],
      onAudioData_calls = [], sentFrames = [], liveConnects = 0,
      noteContent = [], lastProcessedTranscriptLength = 0\<rparr>"

subsection \<open>setTranscript\<close>

definition run_updater :: "app \<Rightarrow> transcript_updater \<Rightarrow> string \<Rightarrow> string" where
  "run_updater s u prev =
     (case u of
        AppendText t \<Rightarrow> prev @ t
      | AppendLiveTranscriptRef \<Rightarrow> prev @ liveTranscriptRef s @ paragraph_break)"

definition setTranscript :: "string \<Rightarrow> app \<Rightarrow> app" where
  "setTranscript v s = s\<lparr>transcript := v, pendingTranscript := []\<rparr>"

definition setTranscript_updater :: "bool \<Rightarrow> transcript_updater \<Rightarrow> app \<Rightarrow> app" where
  "setTranscript_updater atCall u s =
     (if atCall \<and> pendingTranscript s = []
      then s\<lparr>transcript := run_updater s u (transcript s)\<rparr>
      else s\<lparr>pendingTranscript := pendingTranscript s @ [u]\<rparr>)"

definition render :: "app \<Rightarrow> app" where
  "render s =
     s\<lparr>transcript := foldl (\<lambda>prev u. run_updater s u prev) (transcript s) (pendingTranscript s),
       pendingTranscript := []\<rparr>"

subsection \<open>stopRecording\<close>

text \<open>
  What the surroundings do during one call: whether a step throws, and how each awaited
  promise settles. \<open>artifactThrows\<close> is a failed allocation while the recording is
  concatenated and encoded.
\<close>

record stop_env =
  artifactThrows :: bool
  sessionPromise :: "unit awaited"
  sessionCloseThrows :: bool
  trackStopThrows :: bool
  processorDisconnectThrows :: bool
  sourceDisconnectThrows :: bool
  audioContextClose :: "unit awaited"
  outputAudioContextClose :: "unit awaited"
  updaterAtCall :: bool

definition stop_artifact :: "stop_env \<Rightarrow> app \<Rightarrow> (unit, app) step" where
  "stop_artifact env s =
     (if length (recordedChunksRef s) > 0
      then if artifactThrows env then Raised () s
           else let concatenated = concat (recordedChunksRef s);
                    sampleRate =
                      (case audioContextRef s of
                         Some c \<Rightarrow> if ctx_sampleRate c = 0 then 16000 else ctx_sampleRate c
                       | None \<Rightarrow> 16000)
                in case encodeWav concatenated sampleRate of
                     Inl e \<Rightarrow> Raised () s
                   | Inr wavBlob \<Rightarrow> Done (s\<lparr>audioBlob := Some wavBlob, recordedChunksRef := []\<rparr>)
      else Done s)"

definition stop_session :: "stop_env \<Rightarrow> app \<Rightarrow> (unit, app) step" where
  "stop_session env s =
     (case sessionPromiseRef s of
        None \<Rightarrow> Done s
      | Some p \<Rightarrow>
          (case sessionPromise env of
             Pending \<Rightarrow> Stuck s
           | Rejected e \<Rightarrow> Raised () s
           | Resolved session \<Rightarrow>
               if sessionCloseThrows env then Raised () s
               else Done (s\<lparr>sessionPromiseRef := None\<rparr>)))"

definition stop_mediaStream :: "stop_env \<Rightarrow> app \<Rightarrow> (unit, app) step" where
  "stop_mediaStream env s =
     (case mediaStreamRef s of
        None \<Rightarrow> Done s
      | Some m \<Rightarrow> if trackStopThrows env then Raised () s
                  else Done (s\<lparr>mediaStreamRef := None\<rparr>))"

definition stop_scriptProcessor :: "stop_env \<Rightarrow> app \<Rightarrow> (unit, app) step" where
  "stop_scriptProcessor env s =
     (case scriptProcessorRef s of
        None \<Rightarrow> Done s
      | Some n \<Rightarrow> if processorDisconnectThrows env then Raised () s
                  else Done (s\<lparr>scriptProcessorRef := None\<rparr>))"

definition stop_mediaStreamSource :: "stop_env \<Rightarrow> app \<Rightarrow> (unit, app) step" where
  "stop_mediaStreamSource env s =
     (case mediaStreamSourceRef s of
        None \<Rightarrow> Done s
      | Some n \<Rightarrow> if sourceDisconnectThrows env then Raised () s
                  else Done (s\<lparr>mediaStreamSourceRef := None\<rparr>))"

definition stop_audioContext :: "stop_env \<Rightarrow> app \<Rightarrow> (unit, app) step" where
  "stop_audioContext env s =
     (case audioContextRef s of
        None \<Rightarrow> Done s
      | Some c \<Rightarrow>
          if ctx_closed c then Done s
          else (case audioContextClose env of
                  Pending \<Rightarrow> Stuck s
                | Rejected e \<Rightarrow> Raised () s
                | Resolved u \<Rightarrow> Done (s\<lparr>audioContextRef := None\<rparr>)))"

definition stop_outputAudioContext :: "stop_env \<Rightarrow> app \<Rightarrow> (unit, app) step" where
  "stop_outputAudioContext env s =
     (case outputAudioContextRef s of
        None \<Rightarrow> Done s
      | Some c \<Rightarrow>
          if ctx_closed c then Done s
          else (case outputAudioContextClose env of
                  Pending \<Rightarrow> Stuck s
                | Rejected e \<Rightarrow> Raised () s
                | Resolved u \<Rightarrow> Done (s\<lparr>outputAudioContextRef := None\<rparr>)))"

definition stop_try :: "stop_env \<Rightarrow> app \<Rightarrow> (unit, app) step" where
  "stop_try env s =
     next_step (stop_artifact env s) (\<lambda>s.
     next_step (stop_session env s) (\<lambda>s.
     next_step (stop_mediaStream env s) (\<lambda>s.
     next_step (stop_scriptProcessor env s) (\<lambda>s.
     next_step (stop_mediaStreamSource env s) (\<lambda>s.
     next_step (stop_audioContext env s) (\<lambda>s.
     stop_outputAudioContext env s))))))"

definition stop_finally :: "stop_env \<Rightarrow> app \<Rightarrow> app" where
  "stop_finally env s =
     (let s = (if liveTranscriptRef s \<noteq> []
               then (setTranscript_updater (updaterAtCall env) AppendLiveTranscriptRef s)
                      \<lparr>liveTranscriptRef := [], liveTranscript := []\<rparr>
               else s)
      in s\<lparr>recordingTime := 0, appState := IDLE\<rparr>)"

definition stopRecording :: "stop_env \<Rightarrow> app \<Rightarrow> app run" where
  "stopRecording env s =
     (if appState s \<in> set [IDLE, STOPPING] then Finished s
      else let s = s\<lparr>appState := STOPPING, timerRef := False,
                      onAudioData_calls := onAudioData_calls s @ [[]]\<rparr>
           in case stop_try env s of
                Stuck s' \<Rightarrow> Suspended s'
              | Raised e s' \<Rightarrow>
                  Finished (stop_finally env
                    (s'\<lparr>error := Some ''Failed to stop recording cleanly.''\<rparr>))
              | Done s' \<Rightarrow> Finished (stop_finally env s'))"

subsection \<open>startRecording\<close>

text \<open>
  \<open>startRecording\<close> is the call up to its first \<^verbatim>\<open>await\<close>: it returns \<open>Suspended\<close> when
  it waits for \<^verbatim>\<open>getUserMedia\<close> and \<open>Finished\<close> when the guard returns at once.
  \<open>startRecording_continue\<close> is the rest of a suspended call.
\<close>

record start_env =
  getUserMedia :: "media_stream awaited"
  audioContextThrows :: bool
  outputAudioContextThrows :: bool
  genaiThrows :: bool
  connectThrows :: bool

definition startRecording :: "app \<Rightarrow> app run" where
  "startRecording s =
     (if appState s \<noteq> IDLE then Finished s
      else Suspended
             ((setTranscript [] (s\<lparr>error := None\<rparr>))
                \<lparr>liveTranscript := [], recordingTime := 0, audioBlob := None,
                  recordedChunksRef := [], appState := GETTING_PERMISSION\<rparr>))"

definition start_catch :: "app \<Rightarrow> app" where
  "start_catch s =
     s\<lparr>error := Some ''Could not access microphone. Please check permissions and try again.'',
       appState := IDLE\<rparr>"

definition startRecording_continue :: "start_env \<Rightarrow> app \<Rightarrow> app run" where
  "startRecording_continue env s =
     (case getUserMedia env of
        Pending \<Rightarrow> Suspended s
      | Rejected e \<Rightarrow> Finished (start_catch s)
      | Resolved stream \<Rightarrow>
          let s = s\<lparr>mediaStreamRef := Some stream\<rparr> in
          if audioContextThrows env then Finished (start_catch s)
          else let s = s\<lparr>audioContextRef :=
                           Some \<lparr>ctx_sampleRate = 16000, ctx_closed = False\<rparr>\<rparr> in
          if outputAudioContextThrows env then Finished (start_catch s)
          else let s = s\<lparr>outputAudioContextRef :=
                           Some \<lparr>ctx_sampleRate = 24000, ctx_closed = False\<rparr>\<rparr> in
          if genaiThrows env \<or> connectThrows env then Finished (start_catch s)
          else Finished (s\<lparr>sessionPromiseRef := Some (liveConnects s),
                           liveConnects := liveConnects s + 1\<rparr>))"

text \<open>
  The two callbacks that bring a session to \<open>RECORDING\<close> and feed it frames; the
  node constructors of the audio graph are taken to succeed.
\<close>

definition onopen :: "app \<Rightarrow> app" where
  "onopen s =
     (if audioContextRef s = None \<or> mediaStreamRef s = None then s
      else s\<lparr>appState := RECORDING, timerRef := True,
             mediaStreamSourceRef := Some AudioNode, scriptProcessorRef := Some AudioNode\<rparr>)"

definition onaudioprocess :: "real list \<Rightarrow> app \<Rightarrow> app" where
  "onaudioprocess inputData s =
     s\<lparr>recordedChunksRef := recordedChunksRef s @ [inputData],
       onAudioData_calls := onAudioData_calls s @ [inputData],
       sentFrames := (if sessionPromiseRef s \<noteq> None
                      then sentFrames s @ [createBlob inputData] else sentFrames s)\<rparr>"

subsection \<open>onmessage\<close>

text \<open>
  A message may carry an input transcription, whose text may be missing (appending
  \<^verbatim>\<open>undefined\<close> to a string appends the word), and the turn-complete flag. The end of the
  handler decodes the audio of the model and changes no state.
\<close>

record transcription =
  transcription_text :: "string option"

record server_message =
  inputTranscription :: "transcription option"
  turnComplete :: bool

definition onmessage :: "bool \<Rightarrow> server_message \<Rightarrow> app \<Rightarrow> app" where
  "onmessage atCall message s =
     (let s = (case inputTranscription message of
                 Some t \<Rightarrow>
                   let r = liveTranscriptRef s
                             @ (case transcription_text t of Some x \<Rightarrow> x | None \<Rightarrow> ''undefined'')
                   in s\<lparr>liveTranscriptRef := r, liveTranscript := r\<rparr>
               | None \<Rightarrow> s)
      in if turnComplete message
         then let fullInput = liveTranscriptRef s;
                  s = (if trim fullInput \<noteq> []
                       then setTranscript_updater atCall (AppendText (fullInput @ paragraph_break)) s
                       else s)
              in s\<lparr>liveTranscriptRef := [], liveTranscript := []\<rparr>
         else s)"

definition fragment :: "string \<Rightarrow> server_message" where
  "fragment t = \<lparr>inputTranscription = Some \<lparr>transcription_text = Some t\<rparr>, turnComplete = False\<rparr>"

definition turn_complete :: server_message where
  "turn_complete = \<lparr>inputTranscription = None, turnComplete = True\<rparr>"

definition deliver :: "bool \<Rightarrow> server_message list \<Rightarrow> app \<Rightarrow> app" where
  "deliver atCall messages s = foldl (\<lambda>s m. onmessage atCall m s) s messages"

subsection \<open>transcribeFile\<close>

record generate_response =
  response_text :: "string option"
  finishReason :: "string option"

record transcribe_env =
  newGoogleGenAI :: "thrown option"
  fileToBase64 :: "string awaited"
  generateContent :: "generate_response awaited"

definition empty_or_stopped :: "generate_response \<Rightarrow> thrown" where
  "empty_or_stopped response =
     (case finishReason response of
        Some r \<Rightarrow> if r \<noteq> [] \<and> r \<noteq> ''STOP''
                  then ErrorObject (''Transcription stopped due to: '' @ r)
                  else ErrorObject ''empty transcription''
      | None \<Rightarrow> ErrorObject ''empty transcription'')"

definition transcribe_try :: "transcribe_env \<Rightarrow> js_file \<Rightarrow> app \<Rightarrow> (thrown, app) step" where
  "transcribe_try env f s =
     (case validateMimeType (resolveMimeType f) of
        Inl e \<Rightarrow> Raised e s
      | Inr mimeType \<Rightarrow>
          (case newGoogleGenAI env of
             Some e \<Rightarrow> Raised e s
           | None \<Rightarrow>
               (case fileToBase64 env of
                  Pending \<Rightarrow> Stuck s
                | Rejected e \<Rightarrow> Raised e s
                | Resolved base64Audio \<Rightarrow>
                    (case generateContent env of
                       Pending \<Rightarrow> Stuck s
                     | Rejected e \<Rightarrow> Raised e s
                     | Resolved response \<Rightarrow>
                         (case response_text response of
                            Some t \<Rightarrow>
                              if t \<noteq> [] \<and> length (trim t) > 0
                              then Done (setTranscript (t @ paragraph_break) s)
                              else Raised (empty_or_stopped response) s
                          | None \<Rightarrow> Raised (empty_or_stopped response) s)))))"

definition userMessage :: "thrown \<Rightarrow> string" where
  "userMessage err =
     (case err of
        OtherValue \<Rightarrow> ''An unexpected error occurred. Please try again.''
      | ErrorObject message \<Rightarrow>
          let errorMessage = toLowerCase message in
          if includes_string errorMessage ''unsupported file type'' then message
          else if includes_string errorMessage ''corrupt'' \<or> includes_string errorMessage ''decode error''
          then ''The uploaded file seems to be corrupted or is not a valid audio file.''
          else if includes_string errorMessage ''empty transcription''
          then ''Transcription result was empty. This can happen if the audio file is silent or contains no speech.''
          else if includes_string errorMessage ''safety'' \<or> includes_string errorMessage ''blocked''
          then ''The transcription was blocked by safety filters.''
          else if includes_string errorMessage ''400''
          then ''The server rejected the file. It might be in an unsupported format.''
          else ''An unexpected error occurred. Please try again.'')"

definition transcribeFile :: "transcribe_env \<Rightarrow> js_file \<Rightarrow> app \<Rightarrow> app run" where
  "transcribeFile env f s =
     (if appState s \<noteq> IDLE then Finished s
      else let s = (setTranscript [] (s\<lparr>error := None\<rparr>))
                     \<lparr>liveTranscript := [], audioBlob := None, appState := TRANSCRIBING_FILE\<rparr>
           in case transcribe_try env f s of
                Stuck s' \<Rightarrow> Suspended s'
              | Raised err s' \<Rightarrow> Finished (s'\<lparr>error := Some (userMessage err), appState := IDLE\<rparr>)
              | Done s' \<Rightarrow> Finished (s'\<lparr>appState := IDLE\<rparr>))"

section \<open>Transcript reconciler (App, NoteEditor)\<close>

text \<open>The effect of App that depends on \<open>transcript\<close>; it runs after a render.\<close>

definition transcriptEffect :: "app \<Rightarrow> app" where
  "transcriptEffect s =
     (if length (transcript s) > lastProcessedTranscriptLength s
      then let newPart = substring (transcript s) (lastProcessedTranscriptLength s)
           in s\<lparr>noteContent := noteContent s @ newPart,
                lastProcessedTranscriptLength := length (transcript s)\<rparr>
      else if length (transcript s) < lastProcessedTranscriptLength s
      then s\<lparr>noteContent := transcript s,
             lastProcessedTranscriptLength := length (transcript s)\<rparr>
      else s)"

text \<open>
  The body of the debounce timeout set by \<^verbatim>\<open>handleEditorChange\<close>. Its \<open>liveTranscript\<close>
  and \<open>value\<close> are those of the edit that set the timer; \<^verbatim>\<open>onNoteChange\<close> is
  \<^verbatim>\<open>setNoteContent\<close>.
\<close>

definition onNoteChange :: "string \<Rightarrow> app \<Rightarrow> app" where
  "onNoteChange content s = s\<lparr>noteContent := content\<rparr>"

definition handleEditorChange_timeout :: "string \<Rightarrow> string \<Rightarrow> app \<Rightarrow> app" where
  "handleEditorChange_timeout liveTranscript_prop val s =
     (if liveTranscript_prop \<noteq> [] \<and> endsWith val liveTranscript_prop
      then onNoteChange (slice_0_minus val (length liveTranscript_prop)) s
      else onNoteChange val s)"

section \<open>Concrete inputs used below\<close>

text \<open>
  A recording reached through the operations themselves: permission granted, the session
  opened, one frame captured, and the fragment \<^verbatim>\<open>hello\<close> received but its turn not yet
  complete.
\<close>

definition granted :: start_env where
  "granted =
     \<lparr>getUserMedia = Resolved MediaStream, audioContextThrows = False,
      outputAudioContextThrows = False, genaiThrows = False, connectThrows = False\<rparr>"

definition listening :: app where
  "listening =
     onopen (state_of (startRecording_continue granted (state_of (startRecording initial_app))))"

definition recording :: app where
  "recording = onaudioprocess [1 / 2, - (1 / 4)] listening"

definition recording_with_pending :: app where
  "recording_with_pending = deliver False [fragment ''hello''] recording"

definition clean_stop :: stop_env where
  "clean_stop =
     \<lparr>artifactThrows = False, sessionPromise = Resolved (), sessionCloseThrows = False,
      trackStopThrows = False, processorDisconnectThrows = False,
      sourceDisconnectThrows = False, audioContextClose = Resolved (),
      outputAudioContextClose = Resolved (), updaterAtCall = False\<rparr>"

definition close_throws :: stop_env where
  "close_throws = clean_stop\<lparr>sessionCloseThrows := True\<rparr>"

text \<open>
  Every awaited promise of a stop settles; a step that is not stuck; and the fields that
  the cleanup steps of a stop leave alone (the artifact too, when no frame was recorded).
\<close>

definition not_stuck :: "('e, 'a) step \<Rightarrow> bool" where
  "not_stuck r = (case r of Stuck s \<Rightarrow> False | _ \<Rightarrow> True)"

definition kept :: "app \<Rightarrow> app \<Rightarrow> bool" where
  "kept s s' =
     (appState s' = appState s \<and> transcript s' = transcript s
      \<and> liveTranscript s' = liveTranscript s \<and> error s' = error s
      \<and> recordingTime s' = recordingTime s \<and> pendingTranscript s' = pendingTranscript s
      \<and> liveTranscriptRef s' = liveTranscriptRef s \<and> timerRef s' = timerRef s
      \<and> onAudioData_calls s' = onAudioData_calls s \<and> sentFrames s' = sentFrames s
      \<and> liveConnects s' = liveConnects s \<and> noteContent s' = noteContent s
      \<and> lastProcessedTranscriptLength s' = lastProcessedTranscriptLength s
      \<and> (recordedChunksRef s = [] \<longrightarrow> audioBlob s' = audioBlob s \<and> recordedChunksRef s' = []))"

definition settles :: "stop_env \<Rightarrow> bool" where
  "settles env =
     (sessionPromise env \<noteq> Pending \<and> audioContextClose env \<noteq> Pending
      \<and> outputAudioContextClose env \<noteq> Pending)"

definition answering_service :: transcribe_env where
  "answering_service =
     \<lparr>newGoogleGenAI = None, fileToBase64 = Resolved ''UklGRg=='',
      generateContent = Resolved \<lparr>response_text = Some ''hello'', finishReason = Some ''STOP''\<rparr>\<rparr>"

definition constructor_file :: js_file where
  "constructor_file = \<lparr>file_name = ''memo.constructor'', file_type = ''audio/wav''\<rparr>"

section \<open>Verification of the PCM codec\<close>

subsection \<open>Bytes and words\<close>

lemma length_le16 [simp]: "length (le16 w) = 2"
  by (simp add: le16_def)

lemma length_le32 [simp]: "length (le32 w) = 4"
  by (simp add: le32_def)

lemma length_char_codes [simp]: "length (char_codes s) = length s"
  by (simp add: char_codes_def)

lemma le16_roundtrip:
  "(ucast (ucast (w::int16) :: byte) OR push_bit 8 (ucast (ucast (drop_bit 8 w) :: byte))) = w"
  by (rule bit_word_eqI) (auto simp: bit_simps)

lemma int16_pairs_le16: "int16_pairs (le16 w @ rest) = w # int16_pairs rest"
  by (simp add: le16_def le16_roundtrip)

lemma int16_pairs_bytes: "int16_pairs (Uint8Array_of_int16 ws) = ws"
  unfolding Uint8Array_of_int16_def
  by (induction ws) (simp_all add: int16_pairs_le16)

lemma length_Uint8Array_of_int16: "length (Uint8Array_of_int16 ws) = 2 * length ws"
  unfolding Uint8Array_of_int16_def by (induction ws) simp_all

lemma Int16Array_of_bytes: "Int16Array_of_buffer (Uint8Array_of_int16 ws) = Inr ws"
  by (simp add: Int16Array_of_buffer_def length_Uint8Array_of_int16 int16_pairs_bytes)

lemma unat_low_byte: "unat (ucast (w :: 'a::len word) :: byte) = unat w mod 256"
  by (simp only: unsigned_ucast_eq) (simp add: take_bit_eq_mod)

lemma unat_byte_at: "unat (ucast (drop_bit k (w :: 'a::len word)) :: byte) = unat w div 2 ^ k mod 256"
  by (simp only: unsigned_ucast_eq unat_drop_bit_eq) (simp add: take_bit_eq_mod drop_bit_eq_div)

lemma bytes2_nat: "(x::nat) < 65536 \<Longrightarrow> x mod 256 + 256 * (x div 256 mod 256) = x"
proof -
  assume "x < 65536"
  then have "x div 256 < 256" by simp
  then have "x div 256 mod 256 = x div 256" by simp
  then show ?thesis by simp
qed

lemma bytes4_nat:
  assumes "(x::nat) < 4294967296"
  shows "x mod 256 + 256 * (x div 256 mod 256 + 256 * (x div 65536 mod 256 + 256 * (x div 16777216 mod 256))) = x"
proof -
  have d2: "x div 65536 = x div 256 div 256" and d3: "x div 16777216 = x div 256 div 256 div 256"
    by (simp_all add: div_mult2_eq [symmetric])
  have "x div 16777216 < 256" using assms by simp
  then have top: "x div 16777216 mod 256 = x div 256 div 256 div 256" by (simp add: d3)
  have step: "y mod 256 + 256 * (y div 256) = y" for y :: nat by simp
  show ?thesis
    by (simp only: top d2 step)
qed

lemma uint_le_le16: "uint_le (le16 w) = unat w"
proof -
  have "unat w < 65536" using unsigned_less [of w, where ?'a = nat] by simp
  then show ?thesis
    unfolding uint_le_def le16_def
    by (simp only: foldr.simps o_apply unat_byte_at)
       (simp add: unat_low_byte bytes2_nat)
qed

lemma uint_le_le32: "uint_le (le32 w) = unat w"
proof -
  have "unat w < 4294967296" using unsigned_less [of w, where ?'a = nat] by simp
  then have "unat w mod 256 + 256 * (unat w div 256 mod 256 + 256 * (unat w div 65536 mod 256 + 256 * (unat w div 16777216 mod 256))) = unat w"
    by (rule bytes4_nat)
  moreover have "unat w div 16777216 mod 256 = unat w div 16777216"
    using \<open>unat w < 4294967296\<close> by simp
  ultimately show ?thesis
    unfolding uint_le_def le32_def
    by (simp only: foldr.simps o_apply unat_byte_at)
       (simp add: unat_low_byte)
qed

lemma scale_sample_range: "- 32768 \<le> scale_sample x \<and> scale_sample x \<le> 32767"
  by (auto simp: scale_sample_def clamp_sample_def Let_def max_def min_def)

lemma js_truncate_range: "- 32768 \<le> x \<Longrightarrow> x \<le> 32767 \<Longrightarrow> - 32768 \<le> js_truncate x \<and> js_truncate x \<le> 32767"
  unfolding js_truncate_def by (auto simp: le_floor_iff ceiling_le_iff)

lemma sint_ToInt16: "- 32768 \<le> x \<Longrightarrow> x \<le> 32767 \<Longrightarrow> sint (ToInt16 x) = js_truncate x"
  using js_truncate_range [of x]
  by (simp add: ToInt16_def sint_sbintrunc' signed_take_bit_int_eq_self)




lemma writeString_write_at:
  "off + length s \<le> length view \<Longrightarrow> writeString view off s = write_at view off (char_codes s)"
proof (induction s arbitrary: view off)
  case Nil
  then show ?case by (simp add: write_at_def char_codes_def)
next
  case (Cons c cs)
  let ?v = "take off view @ [of_char c] @ drop (off + 1) view"
  have len: "length ?v = length view" using Cons.prems by simp
  have 1: "setUint8 view off (of_char c) = Inr ?v"
    using Cons.prems by (simp add: setUint8_def write_at_def)
  have 2: "writeString ?v (off + 1) cs = write_at ?v (off + 1) (char_codes cs)"
    using Cons.prems len by (intro Cons.IH) simp
  have 3: "take (off + 1) ?v = take off view @ [of_char c]"
    using Cons.prems by simp
  have 4: "drop (off + 1 + length cs) ?v = drop (off + 1 + length cs) view"
    using Cons.prems by (simp add: add.commute)
  have "writeString view off (c # cs) = write_at ?v (off + 1) (char_codes cs)"
    by (simp only: writeString.simps 1 and_then_def sum.case 2)
  also have "\<dots> = Inr (take (off + 1) ?v @ char_codes cs @ drop (off + 1 + length cs) ?v)"
    using Cons.prems len by (simp add: write_at_def)
  also have "\<dots> = Inr (take off view @ (of_char c # char_codes cs) @ drop (off + 1 + length cs) view)"
    by (simp only: 3 4) simp
  also have "\<dots> = write_at view off (char_codes (c # cs))"
    using Cons.prems by (simp add: write_at_def char_codes_def)
  finally show ?case .
qed

lemma header_writes:
  "and_then (writeString (replicate 44 0 @ r) 0 ''RIFF'') (\<lambda>view.
      and_then (setUint32 view 4 (36 + n * 2)) (\<lambda>view.
      and_then (writeString view 8 ''WAVE'') (\<lambda>view.
      and_then (writeString view 12 ''fmt '') (\<lambda>view.
      and_then (setUint32 view 16 16) (\<lambda>view.
      and_then (setUint16 view 20 1) (\<lambda>view.
      and_then (setUint16 view 22 1) (\<lambda>view.
      and_then (setUint32 view 24 R) (\<lambda>view.
      and_then (setUint32 view 28 (R * 1 * (16 div 8))) (\<lambda>view.
      and_then (setUint16 view 32 (1 * (16 div 8))) (\<lambda>view.
      and_then (setUint16 view 34 16) (\<lambda>view.
      and_then (writeString view 36 ''data'') (\<lambda>view.
      and_then (setUint32 view 40 (n * 2)) k))))))))))))
   = k (wav_header n R @ r)"
  by (simp add: and_then_def writeString_write_at setUint16_def setUint32_def write_at_def
        wav_header_def del: writeString.simps)


lemma floatTo16BitPCM_fill:
  "floatTo16BitPCM (pre @ replicate (length xs * 2) 0) (length pre) xs
     = Inr (pre @ Uint8Array_of_int16 (pcm16 xs))"
proof (induction xs arbitrary: pre)
  case Nil
  then show ?case by (simp add: pcm16_def Uint8Array_of_int16_def)
next
  case (Cons x xs)
  have "setInt16 (pre @ replicate (length (x # xs) * 2) 0) (length pre) (scale_sample x)
        = Inr ((pre @ le16 (ToInt16 (scale_sample x))) @ replicate (length xs * 2) 0)"
    by (simp add: setInt16_def write_at_def)
  moreover have "length pre + 2 = length (pre @ le16 (ToInt16 (scale_sample x)))"
    by simp
  ultimately show ?case
    using Cons.IH [of "pre @ le16 (ToInt16 (scale_sample x))"]
    by (simp add: and_then_def pcm16_def Uint8Array_of_int16_def del: append_assoc)
qed

lemma length_wav_header: "length (wav_header n R) = 44"
  by (simp add: wav_header_def)

lemma encodeWav_bytes:
  "encodeWav S R =
     Inr \<lparr>blob_bytes = wav_header (length S) R @ Uint8Array_of_int16 (pcm16 S),
          blob_type = ''audio/wav''\<rparr>"
proof -
  have "floatTo16BitPCM (wav_header (length S) R @ replicate (length S * 2) 0) 44 S
          = Inr (wav_header (length S) R @ Uint8Array_of_int16 (pcm16 S))"
    using floatTo16BitPCM_fill [of "wav_header (length S) R" S]
    by (simp add: length_wav_header)
  then show ?thesis
    unfolding encodeWav_def Let_def replicate_add
    by (simp only: header_writes) (simp add: and_then_def)
qed

lemma read_at_header:
  "off + k \<le> 44 \<Longrightarrow> read_at (wav_header n R @ rest) off k = Some (take k (drop off (wav_header n R)))"
  by (simp add: read_at_def length_wav_header)

lemma unat_ToUint32: "unat (ToUint32 n) = n mod 2 ^ 32"
  by (simp add: ToUint32_def unat_of_nat)

lemma getInt16_payload:
  "i < length ws \<Longrightarrow>
   getInt16 (pre @ Uint8Array_of_int16 ws) (length pre + 2 * i) = Some (sint (ws ! i))"
proof -
  assume i: "i < length ws"
  have slice: "take 2 (drop (2 * i) (Uint8Array_of_int16 ws)) = le16 (ws ! i)"
    using i unfolding Uint8Array_of_int16_def
  proof (induction ws arbitrary: i)
    case Nil
    then show ?case by simp
  next
    case (Cons w ws)
    then show ?case by (cases i) simp_all
  qed
  have "length pre + 2 * i + 2 \<le> length (pre @ Uint8Array_of_int16 ws)"
    using i by (simp add: length_Uint8Array_of_int16)
  then have "read_at (pre @ Uint8Array_of_int16 ws) (length pre + 2 * i) 2 = Some (le16 (ws ! i))"
    by (simp add: read_at_def slice)
  then show ?thesis
    by (simp add: getInt16_def uint_le_le16)
qed

lemma sint_pcm16: "i < length S \<Longrightarrow> sint (pcm16 S ! i) = js_truncate (scale_sample (S ! i))"
  using scale_sample_range [of "S ! i"] by (simp add: pcm16_def sint_ToInt16)

lemma quantisation_error:
  "\<bar>real_of_int (js_truncate (scale_sample x)) / 32768 - clamp_sample x\<bar> < 1 / 16384
   \<and> (x \<le> 0 \<longrightarrow> \<bar>real_of_int (js_truncate (scale_sample x)) / 32768 - clamp_sample x\<bar> < 1 / 32768)"
proof -
  define c where "c = clamp_sample x"
  have c: "- 1 \<le> c" "c \<le> 1" by (simp_all add: c_def clamp_sample_def)
  show ?thesis
  proof (cases "c < 0")
    case True
    define f where "f = real_of_int \<lceil>c * 32768\<rceil>"
    from True have t: "real_of_int (js_truncate (scale_sample x)) = f"
      by (simp add: scale_sample_def Let_def js_truncate_def c_def [symmetric] mult_less_0_iff f_def)
    have "c * 32768 \<le> f" "f < c * 32768 + 1"
      unfolding f_def by linarith+
    then have "- (1 / 32768) < f / 32768 - c" "f / 32768 - c < 1 / 32768"
      by linarith+
    then have "\<bar>f / 32768 - c\<bar> < 1 / 32768"
      by linarith
    then show ?thesis by (simp add: t c_def [symmetric])
  next
    case False
    define f where "f = real_of_int \<lfloor>c * 32767\<rfloor>"
    from False have t: "real_of_int (js_truncate (scale_sample x)) = f"
      by (simp add: scale_sample_def Let_def js_truncate_def c_def [symmetric] mult_less_0_iff f_def)
    have "f \<le> c * 32767" "c * 32767 < f + 1"
      unfolding f_def by linarith+
    with False c have "- (1 / 16384) < f / 32768 - c" "f / 32768 - c < 1 / 16384"
      by linarith+
    then have 1: "\<bar>f / 32768 - c\<bar> < 1 / 16384"
      by linarith
    have 2: "f / 32768 - c = 0" if "x \<le> 0"
    proof -
      from that False have "c = 0"
        by (simp add: c_def clamp_sample_def max_def min_def split: if_splits)
      then show ?thesis by (simp add: f_def)
    qed
    from 1 2 show ?thesis by (auto simp add: t c_def [symmetric])
  qed
qed

lemma decodeAudioData_mono:
  assumes "ws \<noteq> []" "1 \<le> maxChannels ctx" "minRate ctx \<le> R" "R \<le> maxRate ctx"
  shows "decodeAudioData (Uint8Array_of_int16 ws) ctx R 1
           = Inr [map (\<lambda>w. real_of_int (sint w) / 32768) ws]"
proof -
  have "map (\<lambda>i. real_of_int (sint (ws ! i)) / 32768) [0..<length ws]
          = map (\<lambda>w. real_of_int (sint w) / 32768) ws"
    by (rule nth_equalityI) simp_all
  with assms show ?thesis
    by (simp add: decodeAudioData_def Int16Array_of_bytes and_then_def createBuffer_def Let_def)
qed

lemma decode_container_payload_eq:
  assumes "S \<noteq> []" "1 \<le> maxChannels ctx" "minRate ctx \<le> R" "R \<le> maxRate ctx"
  shows "decode_container_payload S R ctx
           = Inr [map (\<lambda>x. real_of_int (js_truncate (scale_sample x)) / 32768) S]"
proof -
  from assms have ne: "pcm16 S \<noteq> []" by (simp add: pcm16_def)
  have dr: "drop 44 (wav_header (length S) R @ Uint8Array_of_int16 (pcm16 S))
              = Uint8Array_of_int16 (pcm16 S)"
    by (simp add: length_wav_header)
  have "map (\<lambda>w. real_of_int (sint w) / 32768) (pcm16 S)
          = map (\<lambda>x. real_of_int (js_truncate (scale_sample x)) / 32768) S"
  proof (rule nth_equalityI)
    show "length (map (\<lambda>w. real_of_int (sint w) / 32768) (pcm16 S))
            = length (map (\<lambda>x. real_of_int (js_truncate (scale_sample x)) / 32768) S)"
      by (simp add: pcm16_def)
  next
    fix i assume "i < length (map (\<lambda>w. real_of_int (sint w) / 32768) (pcm16 S))"
    then have i: "i < length S" by (simp add: pcm16_def)
    then have "map (\<lambda>w. real_of_int (sint w) / 32768) (pcm16 S) ! i
                 = real_of_int (sint (pcm16 S ! i)) / 32768"
      by (simp add: pcm16_def)
    also have "\<dots> = real_of_int (js_truncate (scale_sample (S ! i))) / 32768"
      by (simp only: sint_pcm16 [OF i])
    also have "\<dots> = map (\<lambda>x. real_of_int (js_truncate (scale_sample x)) / 32768) S ! i"
      using i by simp
    finally show "map (\<lambda>w. real_of_int (sint w) / 32768) (pcm16 S) ! i
                    = map (\<lambda>x. real_of_int (js_truncate (scale_sample x)) / 32768) S ! i" .
  qed
  then show ?thesis
    unfolding decode_container_payload_def encodeWav_bytes and_then_def
    by (simp only: sum.case blob.simps dr decodeAudioData_mono [OF ne assms(2-4)])
qed

subsection \<open>The container (encodeWav)\<close>

text \<open>
  Claim C4. For every sample sequence \<open>S\<close> and sample rate \<open>R\<close>, \<open>encodeWav\<close> returns
  (it never throws) a blob of type \<^verbatim>\<open>audio/wav\<close> of exactly \<open>44 + 2 * length S\<close> bytes.
  Read back through the little-endian \<^verbatim>\<open>DataView\<close> getters, the header has \<^verbatim>\<open>RIFF\<close> at 0,
  the chunk size \<open>36 + 2 * length S\<close> at 4, \<^verbatim>\<open>WAVE\<close> at 8, \<^verbatim>\<open>fmt \<close> at 12, the sub-chunk
  size 16 at 16, the format tag 1 at 20, the channel count 1 at 22, the sample rate at
  24, the byte rate \<open>R * 2\<close> at 28, the block align 2 at 32, the bit depth 16 at 34,
  \<^verbatim>\<open>data\<close> at 36 and the payload length \<open>2 * length S\<close> at 40; a four-byte field holds
  its number modulo \<open>2^32\<close>, that is the number itself whenever it fits the field. The
  payload follows: sample \<open>i\<close> is the 16-bit integer at \<open>44 + 2 * i\<close>, the truncation of
  the clamped and scaled sample. The result is a function of \<open>S\<close> and \<open>R\<close> alone.
\<close>

theorem encodeWav_layout:
  "\<exists>b. encodeWav S R = Inr b \<and> blob_type b = ''audio/wav''
     \<and> length (blob_bytes b) = 44 + 2 * length S
     \<and> read_at (blob_bytes b) 0 4 = Some (char_codes ''RIFF'')
     \<and> getUint32 (blob_bytes b) 4 = Some ((36 + 2 * length S) mod 2 ^ 32)
     \<and> read_at (blob_bytes b) 8 4 = Some (char_codes ''WAVE'')
     \<and> read_at (blob_bytes b) 12 4 = Some (char_codes ''fmt '')
     \<and> getUint32 (blob_bytes b) 16 = Some 16
     \<and> getUint16 (blob_bytes b) 20 = Some 1
     \<and> getUint16 (blob_bytes b) 22 = Some 1
     \<and> getUint32 (blob_bytes b) 24 = Some (R mod 2 ^ 32)
     \<and> getUint32 (blob_bytes b) 28 = Some (R * 2 mod 2 ^ 32)
     \<and> getUint16 (blob_bytes b) 32 = Some 2
     \<and> getUint16 (blob_bytes b) 34 = Some 16
     \<and> read_at (blob_bytes b) 36 4 = Some (char_codes ''data'')
     \<and> getUint32 (blob_bytes b) 40 = Some (2 * length S mod 2 ^ 32)
     \<and> (\<forall>i<length S. getInt16 (blob_bytes b) (44 + 2 * i)
                          = Some (js_truncate (scale_sample (S ! i))))"
proof -
  let ?h = "wav_header (length S) R"
  let ?p = "Uint8Array_of_int16 (pcm16 S)"
  let ?b = "\<lparr>blob_bytes = ?h @ ?p, blob_type = ''audio/wav''\<rparr>"
  have enc: "encodeWav S R = Inr ?b" by (rule encodeWav_bytes)
  have len: "length (?h @ ?p) = 44 + 2 * length S"
    by (simp add: length_wav_header length_Uint8Array_of_int16 pcm16_def)
  have f0: "read_at (?h @ ?p) 0 4 = Some (char_codes ''RIFF'')"
    by (simp add: read_at_header) (simp add: wav_header_def)
  have f4: "getUint32 (?h @ ?p) 4 = Some ((36 + 2 * length S) mod 2 ^ 32)"
    by (simp add: getUint32_def read_at_header) (simp add: wav_header_def uint_le_le32 unat_ToUint32 mult.commute)
  have f8: "read_at (?h @ ?p) 8 4 = Some (char_codes ''WAVE'')"
    by (simp add: read_at_header) (simp add: wav_header_def)
  have f12: "read_at (?h @ ?p) 12 4 = Some (char_codes ''fmt '')"
    by (simp add: read_at_header) (simp add: wav_header_def)
  have f16: "getUint32 (?h @ ?p) 16 = Some 16"
    by (simp add: getUint32_def read_at_header) (simp add: wav_header_def uint_le_le32 unat_ToUint32)
  have f20: "getUint16 (?h @ ?p) 20 = Some 1"
    by (simp add: getUint16_def read_at_header) (simp add: wav_header_def uint_le_le16)
  have f22: "getUint16 (?h @ ?p) 22 = Some 1"
    by (simp add: getUint16_def read_at_header) (simp add: wav_header_def uint_le_le16)
  have f24: "getUint32 (?h @ ?p) 24 = Some (R mod 2 ^ 32)"
    by (simp add: getUint32_def read_at_header) (simp add: wav_header_def uint_le_le32 unat_ToUint32)
  have f28: "getUint32 (?h @ ?p) 28 = Some (R * 2 mod 2 ^ 32)"
    by (simp add: getUint32_def read_at_header) (simp add: wav_header_def uint_le_le32 unat_ToUint32)
  have f32: "getUint16 (?h @ ?p) 32 = Some 2"
    by (simp add: getUint16_def read_at_header) (simp add: wav_header_def uint_le_le16)
  have f34: "getUint16 (?h @ ?p) 34 = Some 16"
    by (simp add: getUint16_def read_at_header) (simp add: wav_header_def uint_le_le16)
  have f36: "read_at (?h @ ?p) 36 4 = Some (char_codes ''data'')"
    by (simp add: read_at_header) (simp add: wav_header_def)
  have f40: "getUint32 (?h @ ?p) 40 = Some (2 * length S mod 2 ^ 32)"
    by (simp add: getUint32_def read_at_header) (simp add: wav_header_def uint_le_le32 unat_ToUint32 mult.commute)
  have pay: "\<forall>i<length S. getInt16 (?h @ ?p) (44 + 2 * i) = Some (js_truncate (scale_sample (S ! i)))"
  proof (intro allI impI)
    fix i assume i: "i < length S"
    then have "i < length (pcm16 S)" by (simp add: pcm16_def)
    from getInt16_payload [OF this, of ?h] i show
      "getInt16 (?h @ ?p) (44 + 2 * i) = Some (js_truncate (scale_sample (S ! i)))"
      by (simp add: length_wav_header sint_pcm16)
  qed
  have sel: "blob_bytes ?b = ?h @ ?p" "blob_type ?b = ''audio/wav''"
    by simp_all
  show ?thesis
    by (intro exI [of _ ?b] conjI; (simp only: sel)?)
       (rule enc refl len f0 f4 f8 f12 f16 f20 f22 f24 f28 f32 f34 f36 f40 pay)+
qed

theorem encodeWav_layout_witness:
  "\<exists>b. encodeWav [1 / 2, - 1] 44100 = Inr b
     \<and> length (blob_bytes b) = 48
     \<and> getUint32 (blob_bytes b) 4 = Some 40
     \<and> getUint32 (blob_bytes b) 24 = Some 44100
     \<and> getUint32 (blob_bytes b) 28 = Some 88200
     \<and> getUint32 (blob_bytes b) 40 = Some 4
     \<and> getInt16 (blob_bytes b) 44 = Some 16383
     \<and> getInt16 (blob_bytes b) 46 = Some (- 32768)"
proof -
  have t: "js_truncate (scale_sample (1 / 2)) = 16383" "js_truncate (scale_sample (- 1)) = - 32768"
    by (simp_all add: js_truncate_def scale_sample_def clamp_sample_def)
  from encodeWav_layout [of "[1 / 2, - 1]" 44100] obtain b where
    b: "encodeWav [1 / 2, - 1] 44100 = Inr b"
       "length (blob_bytes b) = 44 + 2 * length [1 / 2, - 1 :: real]"
       "getUint32 (blob_bytes b) 4 = Some ((36 + 2 * length [1 / 2, - 1 :: real]) mod 2 ^ 32)"
       "getUint32 (blob_bytes b) 24 = Some (44100 mod 2 ^ 32)"
       "getUint32 (blob_bytes b) 28 = Some (44100 * 2 mod 2 ^ 32)"
       "getUint32 (blob_bytes b) 40 = Some (2 * length [1 / 2, - 1 :: real] mod 2 ^ 32)"
       and p: "\<forall>i<length [1 / 2, - 1 :: real]. getInt16 (blob_bytes b) (44 + 2 * i)
                  = Some (js_truncate (scale_sample ([1 / 2, - 1] ! i)))"
    by blast
  from p have "getInt16 (blob_bytes b) (44 + 2 * 0) = Some (js_truncate (scale_sample ([1 / 2, - 1] ! 0)))"
    by (rule allE [of _ 0]) simp
  moreover from p have "getInt16 (blob_bytes b) (44 + 2 * 1) = Some (js_truncate (scale_sample ([1 / 2, - 1] ! 1)))"
    by (rule allE [of _ 1]) simp
  ultimately show ?thesis
    using b by (intro exI [of _ b]) (simp add: t)
qed

subsection \<open>The streaming frame (createBlob)\<close>



subsection \<open>Round trip through the container\<close>

lemma decode_empty_container:
  "decode_container_payload [] R ctx = Inl NotSupportedError"
  by (simp add: decode_container_payload_def encodeWav_bytes and_then_def length_wav_header
        decodeAudioData_def Int16Array_of_buffer_def Uint8Array_of_int16_def pcm16_def
        createBuffer_def Let_def)

text \<open>
  Claim C3, as stated: for every \<open>S\<close> and \<open>R\<close>, decoding the payload of the container
  gives back every clamped sample within \<open>1 / 32768\<close>. It fails for the one-sample
  sequence \<open>65535 / 65536\<close>, a value a \<^verbatim>\<open>Float32Array\<close> holds exactly: the encoder stores
  \<open>\<lfloor>32767 * 65535 / 65536\<rfloor> = 32766\<close>, the decoder returns \<open>32766 / 32768\<close>, and the
  difference is \<open>3 / 65536\<close>. And for the empty sequence nothing is reconstructed: the
  audio context refuses a buffer of length zero.
\<close>

theorem container_roundtrip_counterexample:
  "decode_container_payload [65535 / 65536] 16000 browser_host = Inr [[16383 / 16384]]
   \<and> \<not> \<bar>16383 / 16384 - clamp_sample (65535 / 65536)\<bar> \<le> (1 / 32768 :: real)
   \<and> decode_container_payload [] 16000 browser_host = Inl NotSupportedError"
proof (intro conjI)
  have "decode_container_payload [65535 / 65536] 16000 browser_host
          = Inr [map (\<lambda>x. real_of_int (js_truncate (scale_sample x)) / 32768) [65535 / 65536]]"
    by (rule decode_container_payload_eq) (simp_all add: browser_host_def)
  then show "decode_container_payload [65535 / 65536] 16000 browser_host = Inr [[16383 / 16384]]"
    by (simp add: scale_sample_def clamp_sample_def js_truncate_def)
  show "\<not> \<bar>16383 / 16384 - clamp_sample (65535 / 65536)\<bar> \<le> (1 / 32768 :: real)"
    by (simp add: clamp_sample_def)
  show "decode_container_payload [] 16000 browser_host = Inl NotSupportedError"
    by (rule decode_empty_container)
qed

text \<open>
  Claim C3, amended. For every non-empty \<open>S\<close> and every rate \<open>R\<close> for which the audio
  context allocates a one-channel buffer, decoding the payload of \<open>encodeWav S R\<close> returns
  one channel of \<open>length S\<close> samples, each within less than \<open>2 / 32768\<close> of the clamped
  original, and within less than \<open>1 / 32768\<close> when the original is not positive. (The
  encoder multiplies a non-negative sample by 32767 and the decoder divides by 32768.)
\<close>

theorem container_roundtrip_error:
  assumes "S \<noteq> []" "1 \<le> maxChannels ctx" "minRate ctx \<le> R" "R \<le> maxRate ctx"
  shows "\<exists>dec. decode_container_payload S R ctx = Inr [dec] \<and> length dec = length S
           \<and> (\<forall>i<length S. \<bar>dec ! i - clamp_sample (S ! i)\<bar> < 1 / 16384
                 \<and> (S ! i \<le> 0 \<longrightarrow> \<bar>dec ! i - clamp_sample (S ! i)\<bar> < 1 / 32768))"
proof -
  let ?dec = "map (\<lambda>x. real_of_int (js_truncate (scale_sample x)) / 32768) S"
  have "decode_container_payload S R ctx = Inr [?dec]"
    by (rule decode_container_payload_eq [OF assms])
  moreover have "length ?dec = length S" by simp
  moreover have "\<bar>?dec ! i - clamp_sample (S ! i)\<bar> < 1 / 16384
                 \<and> (S ! i \<le> 0 \<longrightarrow> \<bar>?dec ! i - clamp_sample (S ! i)\<bar> < 1 / 32768)"
    if "i < length S" for i
  proof -
    from that have eq: "?dec ! i = real_of_int (js_truncate (scale_sample (S ! i))) / 32768"
      by simp
    show ?thesis unfolding eq by (rule quantisation_error)
  qed
  ultimately show ?thesis by blast
qed

theorem container_roundtrip_error_witness:
  "\<exists>dec. decode_container_payload [1 / 2, - (1 / 4)] 16000 browser_host = Inr [dec]
      \<and> length dec = 2
      \<and> \<bar>dec ! 0 - 1 / 2\<bar> < 1 / 16384
      \<and> \<bar>dec ! 1 - (- (1 / 4))\<bar> < 1 / 32768"
proof -
  let ?S = "[1 / 2, - (1 / 4) :: real]"
  have h: "?S \<noteq> []" "1 \<le> maxChannels browser_host"
    "minRate browser_host \<le> 16000" "16000 \<le> maxRate browser_host"
    by (simp_all add: browser_host_def)
  from container_roundtrip_error [OF h] obtain dec where
    d: "decode_container_payload ?S 16000 browser_host = Inr [dec] \<and> length dec = length ?S
         \<and> (\<forall>i<length ?S. \<bar>dec ! i - clamp_sample (?S ! i)\<bar> < 1 / 16384
                 \<and> (?S ! i \<le> 0 \<longrightarrow> \<bar>dec ! i - clamp_sample (?S ! i)\<bar> < 1 / 32768))" ..
  note e = d [THEN conjunct2, THEN conjunct2, rule_format]
  have c: "clamp_sample (1 / 2) = 1 / 2" "clamp_sample (- (1 / 4)) = - (1 / 4)"
    by (simp_all add: clamp_sample_def)
  have "0 < length ?S" by simp
  from e [OF this] have e0: "\<bar>dec ! 0 - 1 / 2\<bar> < 1 / 16384" by (simp add: c)
  have "1 < length ?S" by simp
  from e [OF this] have e1: "\<bar>dec ! 1 - (- (1 / 4))\<bar> < 1 / 32768" by (simp add: c)
  from d have d1: "decode_container_payload ?S 16000 browser_host = Inr [dec]" and d2: "length dec = 2"
    by simp_all
  from d1 d2 e0 e1 show ?thesis by (intro exI [of _ dec] conjI)
qed
section \<open>Verification of the transcript reconciler\<close>

text \<open>
  Claim C5. Each run of the effect on the tracked transcript only appends to the note:
  when the transcript is longer than the tracked length, the note becomes the old note
  followed by the part of the transcript past that length, and the tracked length
  becomes the length of the transcript; when the lengths agree nothing changes; so
  whenever the transcript is not shorter, the old note is a prefix of the new one. The
  exception: when the transcript is shorter than the tracked length, the note is replaced
  by the transcript and the tracked length is reset to its length.
\<close>

theorem transcriptEffect_append_or_reset:
  "(lastProcessedTranscriptLength s < length (transcript s) \<longrightarrow>
      noteContent (transcriptEffect s)
        = noteContent s @ drop (lastProcessedTranscriptLength s) (transcript s)
      \<and> lastProcessedTranscriptLength (transcriptEffect s) = length (transcript s))
   \<and> (length (transcript s) < lastProcessedTranscriptLength s \<longrightarrow>
      noteContent (transcriptEffect s) = transcript s
      \<and> lastProcessedTranscriptLength (transcriptEffect s) = length (transcript s))
   \<and> (length (transcript s) = lastProcessedTranscriptLength s \<longrightarrow> transcriptEffect s = s)
   \<and> (lastProcessedTranscriptLength s \<le> length (transcript s) \<longrightarrow>
      prefix (noteContent s) (noteContent (transcriptEffect s)))
   \<and> transcript (transcriptEffect s) = transcript s"
  by (simp add: transcriptEffect_def substring_def Let_def)

theorem transcriptEffect_append_or_reset_witness:
  "noteContent (transcriptEffect (initial_app\<lparr>transcript := ''Hello world'',
       noteContent := ''Hello '', lastProcessedTranscriptLength := 6\<rparr>)) = ''Hello world''
   \<and> lastProcessedTranscriptLength (transcriptEffect (initial_app\<lparr>transcript := ''Hello world'',
       noteContent := ''Hello '', lastProcessedTranscriptLength := 6\<rparr>)) = 11
   \<and> noteContent (transcriptEffect (initial_app\<lparr>transcript := ''Hi'',
       noteContent := ''Hello '', lastProcessedTranscriptLength := 6\<rparr>)) = ''Hi''
   \<and> lastProcessedTranscriptLength (transcriptEffect (initial_app\<lparr>transcript := ''Hi'',
       noteContent := ''Hello '', lastProcessedTranscriptLength := 6\<rparr>)) = 2"
proof -
  let ?a = "initial_app\<lparr>transcript := ''Hello world'',
       noteContent := ''Hello '', lastProcessedTranscriptLength := 6\<rparr>"
  let ?b = "initial_app\<lparr>transcript := ''Hi'',
       noteContent := ''Hello '', lastProcessedTranscriptLength := 6\<rparr>"
  have ha: "lastProcessedTranscriptLength ?a < length (transcript ?a)" by simp
  have hb: "length (transcript ?b) < lastProcessedTranscriptLength ?b" by simp
  note ta = transcriptEffect_append_or_reset [of ?a, THEN conjunct1, rule_format, OF ha]
  note tb = transcriptEffect_append_or_reset [of ?b, THEN conjunct2, THEN conjunct1, rule_format, OF hb]
  have a1: "noteContent (transcriptEffect ?a) = ''Hello world''"
    using ta [THEN conjunct1] by simp
  have a2: "lastProcessedTranscriptLength (transcriptEffect ?a) = 11"
    using ta [THEN conjunct2] by simp
  have b1: "noteContent (transcriptEffect ?b) = ''Hi''"
    using tb [THEN conjunct1] by simp
  have b2: "lastProcessedTranscriptLength (transcriptEffect ?b) = 2"
    using tb [THEN conjunct2] by simp
  from a1 a2 b1 b2 show ?thesis by (intro conjI)
qed

text \<open>
  Claim C6. For an edit committed while a live suffix is present: when the new text ends
  with the live suffix, the committed text is the new text without that suffix (so the
  committed text followed by the suffix is the new text, and an unchanged view
  \<open>settled @ live\<close> commits \<open>settled\<close>); otherwise the whole new text is committed.
\<close>

theorem handleEditorChange_commit:
  assumes "live \<noteq> []"
  shows "(endsWith val live \<longrightarrow>
            noteContent (handleEditorChange_timeout live val s) @ live = val
            \<and> noteContent (handleEditorChange_timeout live val s)
                = take (length val - length live) val)
         \<and> (\<not> endsWith val live \<longrightarrow> noteContent (handleEditorChange_timeout live val s) = val)
         \<and> noteContent (handleEditorChange_timeout live (settled @ live) s) = settled"
  using assms
  by (auto simp: handleEditorChange_timeout_def onNoteChange_def endsWith_def slice_0_minus_def
        suffix_def)

theorem handleEditorChange_commit_witness:
  "noteContent (handleEditorChange_timeout ''world'' ''Hello there'' initial_app) = ''Hello there''
   \<and> noteContent (handleEditorChange_timeout ''world'' (''Hello '' @ ''world'') initial_app) = ''Hello ''"
proof -
  have ne: "''world'' \<noteq> []" by simp
  have a: "\<not> endsWith ''Hello there'' ''world''" by (simp add: endsWith_def suffix_to_prefix)
  note t = handleEditorChange_commit [OF ne, of "''Hello there''" initial_app "''Hello ''"]
  from t [THEN conjunct2, THEN conjunct1, rule_format, OF a]
       t [THEN conjunct2, THEN conjunct2]
  show ?thesis by (intro conjI)
qed

section \<open>Verification of the media type resolution\<close>

lemma includes_string_prefix: "prefix sub s \<Longrightarrow> includes_string s sub"
  by (cases s) simp_all

lemma toLowerCase_append: "toLowerCase (a @ b) = toLowerCase a @ toLowerCase b"
  by (simp add: toLowerCase_def)

lemma userMessage_unsupported: "userMessage (ErrorObject (unsupported_message m)) = unsupported_message m"
proof -
  have "toLowerCase ''Unsupported file type: '' = ''unsupported file type: ''"
    by code_simp
  then have "toLowerCase (unsupported_message m)
               = ''unsupported file type: ''
                   @ toLowerCase ((if m = [] then ''unknown'' else m)
                       @ ''. Please upload a supported audio file (e.g., MP3, WAV, M4A).'')"
    unfolding unsupported_message_def by (simp only: toLowerCase_append)
  then have "prefix ''unsupported file type'' (toLowerCase (unsupported_message m))"
    by simp
  then have "includes_string (toLowerCase (unsupported_message m)) ''unsupported file type''"
    by (rule includes_string_prefix)
  then show ?thesis by (simp add: userMessage_def)
qed

lemma map_of_mimeMap_values:
  "map_of mimeMap ext = Some v \<Longrightarrow> startsWith v ''audio/'' \<and> v \<noteq> []"
  by (auto simp: mimeMap_def startsWith_def split: if_splits)

lemma mime_resolution:
  assumes "file_extension f \<notin> set Object_prototype"
  shows "resolveMimeType f =
           Str (case map_of mimeMap (file_extension f) of
                  Some v \<Rightarrow> v
                | None \<Rightarrow> if file_type f = ''audio/x-m4a'' then ''audio/mp4'' else file_type f)"
proof (cases "map_of mimeMap (file_extension f)")
  case None
  then have "file_extension f \<noteq> ''m4a''" by (auto simp: mimeMap_def)
  with None assms show ?thesis
    by (simp add: resolveMimeType_def mimeMap_lookup_def Let_def)
next
  case (Some v)
  then have "file_extension f \<noteq> []" by (auto simp: mimeMap_def split: if_splits)
  moreover from Some have "v \<noteq> []" by (auto dest: map_of_mimeMap_values)
  ultimately show ?thesis using Some
    by (simp add: resolveMimeType_def mimeMap_lookup_def Let_def)
qed

lemma validateMimeType_Str:
  "validateMimeType (Str m) =
     (if startsWith m ''audio/'' \<or> m \<in> {''video/mp4'', ''video/webm'', ''video/3gpp''}
      then Inr m else Inl (ErrorObject (unsupported_message m)))"
  by (auto simp: validateMimeType_def Let_def startsWith_def)

lemma resolution_examples:
  "resolveMimeType \<lparr>file_name = ''voice.m4a'', file_type = ''audio/x-m4a''\<rparr> = Str ''audio/mp4''"
  "validateMimeType (resolveMimeType \<lparr>file_name = ''clip.xyz'', file_type = []\<rparr>)
     = Inl (ErrorObject (unsupported_message []))"
  by code_simp+

lemma constructor_file_extension: "file_extension constructor_file = ''constructor''"
  by code_simp

lemma userMessage_TypeError:
  "userMessage (ErrorObject ''mimeType.startsWith is not a function'')
     = ''An unexpected error occurred. Please try again.''"
  by code_simp

lemma transcribeFile_rejects:
  assumes "appState s = IDLE" "file_extension f \<notin> set Object_prototype"
    and "m = (case map_of mimeMap (file_extension f) of
                Some v \<Rightarrow> v
              | None \<Rightarrow> if file_type f = ''audio/x-m4a'' then ''audio/mp4'' else file_type f)"
    and "\<not> (startsWith m ''audio/'' \<or> m \<in> {''video/mp4'', ''video/webm'', ''video/3gpp''})"
  shows "\<exists>s'. transcribeFile env f s = Finished s' \<and> appState s' = IDLE
           \<and> error s' = Some (unsupported_message m) \<and> transcript s' = []"
proof -
  have "validateMimeType (resolveMimeType f) = Inl (ErrorObject (unsupported_message m))"
    using assms(3,4) by (simp only: mime_resolution [OF assms(2)] validateMimeType_Str) simp
  then show ?thesis
    using assms(1)
    by (simp add: transcribeFile_def transcribe_try_def userMessage_unsupported setTranscript_def)
qed

lemma transcribeFile_accepts:
  assumes "file_extension f \<notin> set Object_prototype"
    and "m = (case map_of mimeMap (file_extension f) of
                Some v \<Rightarrow> v
              | None \<Rightarrow> if file_type f = ''audio/x-m4a'' then ''audio/mp4'' else file_type f)"
    and "startsWith m ''audio/'' \<or> m \<in> {''video/mp4'', ''video/webm'', ''video/3gpp''}"
  shows "validateMimeType (resolveMimeType f) = Inr m"
  using assms(2,3) by (simp only: mime_resolution [OF assms(1)] validateMimeType_Str) simp

text \<open>
  Claim C8 says that every file is resolved by the extension table first and by the
  reported type otherwise, and that a file is rejected, with the message naming the type,
  exactly when the resolved type is neither \<^verbatim>\<open>audio/*\<close> nor one of three video types.
  \<open>mime_resolution\<close>, \<open>validateMimeType_Str\<close>, \<open>transcribeFile_rejects\<close> and
  \<open>resolution_examples\<close> show this for every file whose extension is not the name of a member
  that the table inherits. For the file \<^verbatim>\<open>memo.constructor\<close> of reported type
  \<^verbatim>\<open>audio/wav\<close> the code does something else: the extension is no key of the table and
  the reported type starts with \<^verbatim>\<open>audio/\<close>, yet the lookup returns the inherited
  constructor, the validation throws a \<^verbatim>\<open>TypeError\<close>, and the file is refused with the
  generic message although the service would have answered.
\<close>

theorem transcribeFile_inherited_key:
  "file_extension constructor_file = ''constructor''
   \<and> map_of mimeMap ''constructor'' = None
   \<and> startsWith (file_type constructor_file) ''audio/''
   \<and> resolveMimeType constructor_file = Obj
   \<and> validateMimeType (resolveMimeType constructor_file)
        = Inl (ErrorObject ''mimeType.startsWith is not a function'')
   \<and> transcribeFile answering_service constructor_file initial_app
        = Finished (initial_app\<lparr>error := Some ''An unexpected error occurred. Please try again.''\<rparr>)"
proof -
  have r: "resolveMimeType constructor_file = Obj"
    by (simp add: resolveMimeType_def constructor_file_extension mimeMap_lookup_def
          mimeMap_def Object_prototype_def Let_def)
  have v: "validateMimeType Obj = Inl (ErrorObject ''mimeType.startsWith is not a function'')"
    by (simp add: validateMimeType_def)
  have t: "transcribeFile answering_service constructor_file initial_app
        = Finished (initial_app\<lparr>error := Some ''An unexpected error occurred. Please try again.''\<rparr>)"
    by (simp add: transcribeFile_def transcribe_try_def r v userMessage_TypeError
          setTranscript_def initial_app_def)
  have m: "map_of mimeMap ''constructor'' = None" by (simp add: mimeMap_def)
  have s: "startsWith (file_type constructor_file) ''audio/''"
    by (simp add: constructor_file_def startsWith_def)
  from constructor_file_extension m s r v t show ?thesis
    by (simp only: simp_thms)
qed

section \<open>Verification of the recording state machine\<close>

subsection \<open>The start guard\<close>




subsection \<open>Stopping\<close>

lemma kept_refl: "kept s s"
  by (simp add: kept_def)

lemma kept_trans: "kept a b \<Longrightarrow> kept b c \<Longrightarrow> kept a c"
  by (simp add: kept_def)

lemma kept_artifact: "kept s (step_state (stop_artifact env s))"
  by (simp add: stop_artifact_def kept_def step_state_def Let_def split: sum.splits)

lemma kept_session: "kept s (step_state (stop_session env s))"
  by (simp add: stop_session_def kept_def step_state_def split: option.splits awaited.splits)

lemma kept_mediaStream: "kept s (step_state (stop_mediaStream env s))"
  by (simp add: stop_mediaStream_def kept_def step_state_def split: option.splits)

lemma kept_scriptProcessor: "kept s (step_state (stop_scriptProcessor env s))"
  by (simp add: stop_scriptProcessor_def kept_def step_state_def split: option.splits)

lemma kept_mediaStreamSource: "kept s (step_state (stop_mediaStreamSource env s))"
  by (simp add: stop_mediaStreamSource_def kept_def step_state_def split: option.splits)

lemma kept_audioContext: "kept s (step_state (stop_audioContext env s))"
  by (simp add: stop_audioContext_def kept_def step_state_def split: option.splits awaited.splits)

lemma kept_outputAudioContext: "kept s (step_state (stop_outputAudioContext env s))"
  by (simp add: stop_outputAudioContext_def kept_def step_state_def split: option.splits awaited.splits)

lemma kept_next_step:
  assumes "kept s (step_state r)" "\<And>x. kept x (step_state (f x))"
  shows "kept s (step_state (next_step r f))"
  using assms by (cases r) (auto simp: next_step_def step_state_def intro: kept_trans)

lemma kept_stop_try: "kept s (step_state (stop_try env s))"
  unfolding stop_try_def
  by (intro kept_next_step kept_artifact kept_session kept_mediaStream kept_scriptProcessor
        kept_mediaStreamSource kept_audioContext kept_outputAudioContext)

lemma not_stuck_next_step: "not_stuck r \<Longrightarrow> (\<And>x. not_stuck (f x)) \<Longrightarrow> not_stuck (next_step r f)"
  by (cases r) (auto simp: next_step_def not_stuck_def)

lemma not_stuck_stop_try: "settles env \<Longrightarrow> not_stuck (stop_try env s)"
  unfolding stop_try_def
  by (intro not_stuck_next_step)
     (auto simp: settles_def not_stuck_def stop_artifact_def stop_session_def stop_mediaStream_def
        stop_scriptProcessor_def stop_mediaStreamSource_def stop_audioContext_def
        stop_outputAudioContext_def Let_def split: option.splits awaited.splits sum.splits)



text \<open>
  What a stop does reach, for every state other than \<open>IDLE\<close> and \<open>STOPPING\<close> and every
  behaviour of the surroundings in which the awaited promises settle: the call finishes
  in \<open>IDLE\<close> with the elapsed time zero, the error is the one it was or the message of
  the catch block, and the live buffer is empty. The flush of a pending fragment depends
  on when React calls the updater.
\<close>

lemma stopRecording_outcome:
  assumes run: "appState s \<notin> set [IDLE, STOPPING]" and "settles env"
  shows "\<exists>s'. stopRecording env s = Finished s' \<and> appState s' = IDLE \<and> recordingTime s' = 0
           \<and> (error s' = error s \<or> error s' = Some ''Failed to stop recording cleanly.'')
           \<and> liveTranscriptRef s' = []
           \<and> (liveTranscriptRef s \<noteq> [] \<longrightarrow> liveTranscript s' = [])
           \<and> (pendingTranscript s = [] \<longrightarrow>
                 transcript (render s')
                   = (if liveTranscriptRef s = [] then transcript s
                      else if updaterAtCall env
                           then transcript s @ liveTranscriptRef s @ paragraph_break
                           else transcript s @ paragraph_break))"
proof -
  let ?s0 = "s\<lparr>appState := STOPPING, timerRef := False,
                 onAudioData_calls := onAudioData_calls s @ [[]]\<rparr>"
  have k: "kept ?s0 (step_state (stop_try env ?s0))" by (rule kept_stop_try)
  have ns: "not_stuck (stop_try env ?s0)" using assms(2) by (rule not_stuck_stop_try)
  have fin: "appState (stop_finally env x) = IDLE \<and> recordingTime (stop_finally env x) = 0
        \<and> error (stop_finally env x) = error x
        \<and> liveTranscriptRef (stop_finally env x) = []
        \<and> (liveTranscriptRef x \<noteq> [] \<longrightarrow> liveTranscript (stop_finally env x) = [])
        \<and> (pendingTranscript x = [] \<longrightarrow>
              transcript (render (stop_finally env x))
                = (if liveTranscriptRef x = [] then transcript x
                   else if updaterAtCall env
                        then transcript x @ liveTranscriptRef x @ paragraph_break
                        else transcript x @ paragraph_break))" for x
    by (simp add: stop_finally_def setTranscript_updater_def render_def run_updater_def Let_def)
  show ?thesis
  proof (cases "stop_try env ?s0")
    case (Done x)
    with k have kx: "kept ?s0 x" by (simp add: step_state_def)
    from Done run have "stopRecording env s = Finished (stop_finally env x)"
      by (simp add: stopRecording_def Let_def)
    with fin [of x] kx show ?thesis by (simp add: kept_def)
  next
    case (Raised e x)
    with k have kx: "kept ?s0 x" by (simp add: step_state_def)
    let ?x = "x\<lparr>error := Some ''Failed to stop recording cleanly.''\<rparr>"
    from Raised run have "stopRecording env s = Finished (stop_finally env ?x)"
      by (simp add: stopRecording_def Let_def)
    with fin [of ?x] kx show ?thesis by (simp add: kept_def)
  next
    case (Stuck x)
    with ns show ?thesis by (simp add: not_stuck_def)
  qed
qed

text \<open>A session promise that never settles leaves the stop suspended in \<open>STOPPING\<close>.\<close>

lemma stopRecording_stuck:
  assumes "appState s \<notin> set [IDLE, STOPPING]" "recordedChunksRef s = []"
    "sessionPromiseRef s \<noteq> None" "sessionPromise env = Pending"
  shows "\<exists>s'. stopRecording env s = Suspended s' \<and> appState s' = STOPPING"
  using assms
  by (auto simp: stopRecording_def stop_try_def stop_artifact_def stop_session_def
        next_step_def Let_def)

lemma recording_fields:
  "appState recording = RECORDING" "liveTranscriptRef recording = []"
  "transcript recording = []" "pendingTranscript recording = []"
  "recordedChunksRef recording = [[1 / 2, - (1 / 4)]]"
  "sessionPromiseRef recording = Some 0" "error recording = None"
  "audioBlob recording = None"
  by (simp_all add: recording_def listening_def onaudioprocess_def onopen_def startRecording_continue_def
        startRecording_def granted_def initial_app_def state_of_def setTranscript_def Let_def)

lemma recording_with_pending_fields:
  "appState recording_with_pending = RECORDING"
  "liveTranscriptRef recording_with_pending = ''hello''"
  "liveTranscript recording_with_pending = ''hello''"
  "transcript recording_with_pending = []" "pendingTranscript recording_with_pending = []"
  "recordedChunksRef recording_with_pending = [[1 / 2, - (1 / 4)]]"
  "sessionPromiseRef recording_with_pending = Some 0" "error recording_with_pending = None"
  by (simp_all add: recording_with_pending_def deliver_def onmessage_def fragment_def
        recording_fields Let_def)

lemma stop_try_close_throws:
  "\<exists>x. stop_try close_throws (recording_with_pending\<lparr>appState := STOPPING, timerRef := False,
       onAudioData_calls := onAudioData_calls recording_with_pending @ [[]]\<rparr>) = Raised () x"
  by (simp add: stop_try_def stop_artifact_def stop_session_def next_step_def close_throws_def
        clean_stop_def recording_with_pending_fields encodeWav_bytes Let_def)

text \<open>
  Claim C1 says that a stop appends a pending live fragment to the transcript. The
  updater that \<open>stopRecording\<close> passes to \<^verbatim>\<open>setTranscript\<close> reads \<^verbatim>\<open>liveTranscriptRef.current\<close>
  when React calls it, and the next statement empties the ref. In the run below the
  session's \<^verbatim>\<open>close\<close> throws, so the catch block has queued \<^verbatim>\<open>setError\<close> just before and
  React calls the updater at the next render: the state reaches \<open>IDLE\<close> with the time
  reset and the error message set, but the transcript gains two newlines and the fragment
  \<^verbatim>\<open>hello\<close> is lost. The turn-complete branch of \<open>onmessage\<close> copies the ref into a
  constant first and keeps the fragment in the same state.
\<close>

theorem stopRecording_drops_pending_fragment:
  "appState recording_with_pending = RECORDING
   \<and> liveTranscriptRef recording_with_pending = ''hello''
   \<and> transcript recording_with_pending = []
   \<and> appState (state_of (stopRecording close_throws recording_with_pending)) = IDLE
   \<and> recordingTime (state_of (stopRecording close_throws recording_with_pending)) = 0
   \<and> error (state_of (stopRecording close_throws recording_with_pending))
        = Some ''Failed to stop recording cleanly.''
   \<and> liveTranscript (state_of (stopRecording close_throws recording_with_pending)) = []
   \<and> liveTranscriptRef (state_of (stopRecording close_throws recording_with_pending)) = []
   \<and> transcript (render (state_of (stopRecording close_throws recording_with_pending)))
        = paragraph_break
   \<and> transcript (render (onmessage False turn_complete recording_with_pending))
        = ''hello'' @ paragraph_break"
proof -
  let ?s0 = "recording_with_pending\<lparr>appState := STOPPING, timerRef := False,
       onAudioData_calls := onAudioData_calls recording_with_pending @ [[]]\<rparr>"
  from stop_try_close_throws obtain x where x: "stop_try close_throws ?s0 = Raised () x" ..
  have "kept ?s0 (step_state (stop_try close_throws ?s0))" by (rule kept_stop_try)
  with x have k: "kept ?s0 x" by (simp add: step_state_def)
  have r: "stopRecording close_throws recording_with_pending
             = Finished (stop_finally close_throws
                 (x\<lparr>error := Some ''Failed to stop recording cleanly.''\<rparr>))"
    using x by (simp add: stopRecording_def recording_with_pending_fields Let_def)
  have u: "updaterAtCall close_throws = False" by (simp add: close_throws_def clean_stop_def)
  have fx: "liveTranscriptRef x = ''hello''" "transcript x = []" "pendingTranscript x = []"
    using k by (simp_all add: kept_def recording_with_pending_fields)
  have stop: "appState (state_of (stopRecording close_throws recording_with_pending)) = IDLE"
    "recordingTime (state_of (stopRecording close_throws recording_with_pending)) = 0"
    "error (state_of (stopRecording close_throws recording_with_pending))
        = Some ''Failed to stop recording cleanly.''"
    "liveTranscript (state_of (stopRecording close_throws recording_with_pending)) = []"
    "liveTranscriptRef (state_of (stopRecording close_throws recording_with_pending)) = []"
    "transcript (render (state_of (stopRecording close_throws recording_with_pending)))
        = paragraph_break"
    unfolding r
    by (simp_all add: state_of_def stop_finally_def setTranscript_updater_def u fx render_def
          run_updater_def Let_def)
  have msg: "transcript (render (onmessage False turn_complete recording_with_pending))
        = ''hello'' @ paragraph_break"
    by (simp add: onmessage_def turn_complete_def recording_with_pending_fields
          setTranscript_updater_def render_def run_updater_def trim_def is_whitespace_def Let_def)
  from recording_with_pending_fields(1,2,4) stop msg show ?thesis by (intro conjI)
qed

subsection \<open>Turn boundaries\<close>

lemma deliver_Nil: "deliver a [] s = s"
  by (simp add: deliver_def)

lemma deliver_Cons: "deliver a (m # ms) s = deliver a ms (onmessage a m s)"
  by (simp add: deliver_def)

lemma deliver_append: "deliver a (xs @ ys) s = deliver a ys (deliver a xs s)"
  by (simp add: deliver_def)

lemma onmessage_fragment:
  "liveTranscriptRef (onmessage a (fragment t) s) = liveTranscriptRef s @ t
   \<and> transcript (onmessage a (fragment t) s) = transcript s
   \<and> pendingTranscript (onmessage a (fragment t) s) = pendingTranscript s"
  by (simp add: onmessage_def fragment_def Let_def)

lemma deliver_fragments:
  "liveTranscriptRef (deliver a (map fragment fs) s) = liveTranscriptRef s @ concat fs
   \<and> transcript (deliver a (map fragment fs) s) = transcript s
   \<and> pendingTranscript (deliver a (map fragment fs) s) = pendingTranscript s"
proof (induction fs arbitrary: s)
  case Nil
  then show ?case by (simp add: deliver_Nil)
next
  case (Cons f fs)
  show ?case
    using Cons.IH [of "onmessage a (fragment f) s"] onmessage_fragment [of a f s]
    by (simp add: deliver_Cons)
qed

lemma onmessage_turn_complete:
  assumes "pendingTranscript s = []"
  shows "transcript (render (onmessage a turn_complete s))
           = (if trim (liveTranscriptRef s) \<noteq> []
              then transcript s @ liveTranscriptRef s @ paragraph_break else transcript s)
         \<and> liveTranscript (render (onmessage a turn_complete s)) = []
         \<and> liveTranscriptRef (render (onmessage a turn_complete s)) = []
         \<and> pendingTranscript (render (onmessage a turn_complete s)) = []"
  using assms
  by (simp add: onmessage_def turn_complete_def setTranscript_updater_def render_def
        run_updater_def Let_def)

text \<open>
  Claim C7, as stated: after the fragments of one turn and its turn-complete signal, the
  transcript is the old transcript followed by exactly the concatenation of the
  fragments. It fails for the single fragment of one space, which is not flushed at all,
  and for the single fragment \<^verbatim>\<open>hi\<close>, which is flushed with two newlines after it.
\<close>

theorem turn_boundary_flush_counterexample:
  "transcript (render (deliver False (map fragment ['' ''] @ [turn_complete]) initial_app))
     \<noteq> transcript initial_app @ concat ['' '']
   \<and> transcript (render (deliver False (map fragment [''hi''] @ [turn_complete]) initial_app))
     \<noteq> transcript initial_app @ concat [''hi'']"
proof -
  have i: "pendingTranscript initial_app = []" "liveTranscriptRef initial_app = []"
    "transcript initial_app = []"
    by (simp_all add: initial_app_def)
  have a: "transcript (render (deliver False (map fragment ['' ''] @ [turn_complete]) initial_app)) = []"
  proof -
    have "trim (concat ['' '']) = []" by (simp add: trim_def is_whitespace_def)
    then show ?thesis
      using onmessage_turn_complete [of "deliver False (map fragment ['' '']) initial_app" False]
        deliver_fragments [of False "['' '']" initial_app]
      by (simp add: deliver_append deliver_Cons deliver_Nil i del: map_append list.map)
  qed
  have b: "transcript (render (deliver False (map fragment [''hi''] @ [turn_complete]) initial_app))
             = ''hi'' @ paragraph_break"
  proof -
    have "trim (concat [''hi'']) \<noteq> []" by (simp add: trim_def is_whitespace_def)
    then show ?thesis
      using onmessage_turn_complete [of "deliver False (map fragment [''hi'']) initial_app" False]
        deliver_fragments [of False "[''hi'']" initial_app]
      by (simp add: deliver_append deliver_Cons deliver_Nil i del: map_append list.map)
  qed
  show ?thesis unfolding a b by (simp add: i paragraph_break_def)
qed

text \<open>
  Claim C7, amended. From a state with no queued updater and an empty live buffer, after
  the fragments of one turn and its turn-complete signal, and the render that follows:
  when the concatenation of the fragments has a character that is not white space, the
  transcript is the old transcript followed by that concatenation, once, and by two
  newlines; otherwise the transcript is unchanged. In both cases the live transcript and
  its ref are empty.
\<close>

theorem turn_boundary_flush:
  assumes "pendingTranscript s = []" "liveTranscriptRef s = []"
  shows "transcript (render (deliver atCall (map fragment fs @ [turn_complete]) s))
           = (if trim (concat fs) \<noteq> [] then transcript s @ concat fs @ paragraph_break
              else transcript s)
         \<and> liveTranscript (render (deliver atCall (map fragment fs @ [turn_complete]) s)) = []
         \<and> liveTranscriptRef (render (deliver atCall (map fragment fs @ [turn_complete]) s)) = []"
proof -
  let ?s1 = "deliver atCall (map fragment fs) s"
  have d: "deliver atCall (map fragment fs @ [turn_complete]) s = onmessage atCall turn_complete ?s1"
    by (simp add: deliver_append deliver_Cons deliver_Nil)
  from deliver_fragments [of atCall fs s] assms have f:
    "liveTranscriptRef ?s1 = concat fs" "transcript ?s1 = transcript s" "pendingTranscript ?s1 = []"
    by simp_all
  from onmessage_turn_complete [OF f(3), of atCall] show ?thesis
    unfolding d by (simp add: f)
qed

theorem turn_boundary_flush_witness:
  "transcript (render (deliver True (map fragment [''Hello '', ''world''] @ [turn_complete]) initial_app))
     = ''Hello world'' @ paragraph_break
   \<and> liveTranscript (render (deliver True (map fragment [''Hello '', ''world''] @ [turn_complete]) initial_app)) = []
   \<and> liveTranscriptRef (render (deliver True (map fragment [''Hello '', ''world''] @ [turn_complete]) initial_app)) = []"
proof -
  have i: "pendingTranscript initial_app = []" "liveTranscriptRef initial_app = []"
    by (simp_all add: initial_app_def)
  have t: "trim (concat [''Hello '', ''world'']) \<noteq> []" by (simp add: trim_def is_whitespace_def)
  have c: "transcript initial_app @ concat [''Hello '', ''world''] @ paragraph_break
             = ''Hello world'' @ paragraph_break"
    by (simp add: initial_app_def)
  note th = turn_boundary_flush [OF i, of True "[''Hello '', ''world'']"]
  have 1: "transcript (render (deliver True (map fragment [''Hello '', ''world''] @ [turn_complete]) initial_app))
     = ''Hello world'' @ paragraph_break"
    using th [THEN conjunct1] unfolding if_P [OF t] c .
  from 1 th [THEN conjunct2] show ?thesis by (intro conjI) simp_all
qed

end
